theory Spec2Isabelle
  imports Main "HOL-Library.Word"
begin

unbundle bit_operations_syntax

section \<open>Values: ObjectIds and strings\<close>

text \<open>
  A MongoDB ObjectId is a 12-byte value. Request parameters and service arguments carry
  ids as strings: \<open>Types.ObjectId.isValid\<close> is modelled on the 24-digit hexadecimal
  form (the legacy 12-byte string form is left out), \<open>new Types.ObjectId(s)\<close> reads
  the digits and \<open>toString()\<close> renders the lower-case form. Where Mongoose casts a
  string of a query to an ObjectId, the model applies \<open>ObjectId\<close>.
  Strings are lists of code units; \<^typ>\<open>char\<close> covers the code units below 256.
\<close>

type_synonym oid = "96 word"

definition hexval :: "char \<Rightarrow> nat option" where
  "hexval c = (let n = (of_char c :: nat) in
     if 48 \<le> n \<and> n \<le> 57 then Some (n - 48)
     else if 97 \<le> n \<and> n \<le> 102 then Some (n - 87)
     else if 65 \<le> n \<and> n \<le> 70 then Some (n - 55)
     else None)"

definition isValidObjectId :: "string \<Rightarrow> bool" where
  "isValidObjectId s = (length s = 24 \<and> list_all (\<lambda>c. hexval c \<noteq> None) s)"

definition ObjectId :: "string \<Rightarrow> oid" where
  "ObjectId s =
     foldl (\<lambda>acc c. acc * 16 + of_nat (case hexval c of Some v \<Rightarrow> v | None \<Rightarrow> 0)) 0 s"

definition hexdigit :: "nat \<Rightarrow> char" where
  "hexdigit n = ''0123456789abcdef'' ! n"

definition nibble :: "nat \<Rightarrow> oid \<Rightarrow> nat" where
  "nibble i w = unat (take_bit 4 (drop_bit (4 * i) w))"

definition toString :: "oid \<Rightarrow> string" where
  "toString w = map (\<lambda>k. hexdigit (nibble (23 - k) w)) [0..<24]"

text \<open>\<open>String.prototype.trim\<close>: white space and line terminators among the code units below 256.\<close>

definition isWhiteSpace :: "char \<Rightarrow> bool" where
  "isWhiteSpace c = ((of_char c :: nat) \<in> {9, 10, 11, 12, 13, 32, 160})"

definition trim :: "string \<Rightarrow> string" where
  "trim s = rev (dropWhile isWhiteSpace (rev (dropWhile isWhiteSpace s)))"

section \<open>Documents and collections\<close>

datatype resource = FileT | FolderT

record folder_doc =
  folder_id :: oid
  folderName :: string
  folder_userId :: oid
  folder_businessId :: oid
  parentFolderId :: "oid option"
  folder_s3Key :: string
  fileIds :: "oid list"
  folderIds :: "oid list"

text \<open>
  Modelled from the spec: the File schema (\<open>models/file.model.ts\<close> is not among the
  sources). The fields are those of the spec's File record, under the names the services use.
\<close>

record file_doc =
  file_id :: oid
  fileName :: string
  file_userId :: oid
  file_businessId :: oid
  folderId :: "oid option"
  fileSize :: int
  contentType :: "string option"
  file_s3Key :: string

record permission_doc =
  perm_id :: oid
  userId :: oid
  targetId :: "oid option"
  targetType :: "resource option"
  accessLevel :: "string list"
  isGlobal :: bool

text \<open>A collection is the list of its documents in natural order; a query takes the first match.\<close>

record db =
  folders :: "folder_doc list"
  files :: "file_doc list"
  permissions :: "permission_doc list"

datatype error = AppError nat string | Error string

definition findFolderById :: "oid \<Rightarrow> folder_doc list \<Rightarrow> folder_doc option" where
  "findFolderById i fs = find (\<lambda>f. folder_id f = i) fs"

definition findFileById :: "oid \<Rightarrow> file_doc list \<Rightarrow> file_doc option" where
  "findFileById i fs = find (\<lambda>f. file_id f = i) fs"

section \<open>Authorization middleware (permissions.middleware.ts)\<close>

record authContext =
  auth_userId :: oid
  userIdString :: string

text \<open>What \<open>authenticate\<close> attaches to the request for a verified token of user \<open>u\<close>.\<close>

definition mkAuth :: "oid \<Rightarrow> authContext" where
  "mkAuth u = \<lparr>auth_userId = u, userIdString = toString u\<rparr>"

definition ACCESS_LEVELS :: "string list" where
  "ACCESS_LEVELS = [''read'', ''write'', ''create'', ''delete'', ''owner'']"

definition isAction :: "string \<Rightarrow> bool" where
  "isAction action = (action \<in> set ACCESS_LEVELS)"

definition hasGlobal :: "oid \<Rightarrow> string \<Rightarrow> permission_doc list \<Rightarrow> bool" where
  "hasGlobal u action ps =
     (\<exists>p \<in> set ps. userId p = u \<and> isGlobal p \<and> action \<in> set (accessLevel p))"

definition hasSpecific :: "oid \<Rightarrow> resource \<Rightarrow> oid \<Rightarrow> string \<Rightarrow> permission_doc list \<Rightarrow> bool" where
  "hasSpecific u res rid action ps =
     (\<exists>p \<in> set ps. userId p = u \<and> \<not> isGlobal p \<and> targetType p = Some res \<and>
        targetId p = Some rid \<and> action \<in> set (accessLevel p))"

text \<open>The owning user recorded on the resource (\<open>findById(resourceId)\<close>, then \<open>userId\<close>).\<close>

definition recordedOwner :: "resource \<Rightarrow> oid \<Rightarrow> db \<Rightarrow> oid option" where
  "recordedOwner res rid s =
     (case res of
        FolderT \<Rightarrow> map_option folder_userId (findFolderById rid (folders s))
      | FileT \<Rightarrow> map_option file_userId (findFileById rid (files s)))"

definition notFound :: "resource \<Rightarrow> error" where
  "notFound res =
     (case res of FolderT \<Rightarrow> AppError 404 ''FOLDER_NOT_FOUND'' | FileT \<Rightarrow> AppError 404 ''FILE_NOT_FOUND'')"

text \<open>
  \<open>checkPermission(resource, action)\<close> applied to a request with \<open>req.auth = auth\<close> and
  \<open>req.params.id = resourceId\<close>: \<open>Inr ()\<close> is \<open>next()\<close>, \<open>Inl e\<close> is \<open>next(e)\<close>.
\<close>

definition checkPermission ::
  "resource \<Rightarrow> string \<Rightarrow> authContext option \<Rightarrow> string \<Rightarrow> db \<Rightarrow> error + unit" where
  "checkPermission res action auth resourceId s =
     (if \<not> isAction action then Inl (AppError 500 ''PERMISSION_INVALID_ACTION'')
      else case auth of
        None \<Rightarrow> Inl (AppError 401 ''NOT_AUTHENTICATED'')
      | Some a \<Rightarrow>
          if userIdString a = [] then Inl (AppError 401 ''NOT_AUTHENTICATED'')
          else if \<not> isValidObjectId resourceId then Inl (AppError 400 ''INVALID_ID'')
          else case recordedOwner res (ObjectId resourceId) s of
            None \<Rightarrow> Inl (notFound res)
          | Some owner \<Rightarrow>
              if toString owner = userIdString a then Inr ()
              else if hasGlobal (auth_userId a) action (permissions s) then Inr ()
              else if hasSpecific (auth_userId a) res (ObjectId resourceId) action (permissions s)
                then Inr ()
              else Inl (AppError 403 ''FORBIDDEN''))"

section \<open>Collection primitives\<close>

text \<open>
  \<open>findOneAndUpdate\<close>, \<open>findByIdAndUpdate\<close> and \<open>save()\<close> on a fetched document change the
  first document that matches; \<open>findByIdAndDelete\<close> removes it; \<open>deleteMany\<close> removes
  every match.
\<close>

fun updateFirst :: "('a \<Rightarrow> bool) \<Rightarrow> ('a \<Rightarrow> 'a) \<Rightarrow> 'a list \<Rightarrow> 'a list" where
  "updateFirst P g [] = []"
| "updateFirst P g (x # xs) = (if P x then g x # xs else x # updateFirst P g xs)"

fun deleteFirst :: "('a \<Rightarrow> bool) \<Rightarrow> 'a list \<Rightarrow> 'a list" where
  "deleteFirst P [] = []"
| "deleteFirst P (x # xs) = (if P x then xs else x # deleteFirst P xs)"

definition deleteMany :: "('a \<Rightarrow> bool) \<Rightarrow> 'a list \<Rightarrow> 'a list" where
  "deleteMany P xs = filter (\<lambda>x. \<not> P x) xs"


definition pull :: "'a \<Rightarrow> 'a list \<Rightarrow> 'a list" where
  "pull x xs = filter (\<lambda>y. y \<noteq> x) xs"

section \<open>Folder service (folder.service.ts)\<close>

definition isSafeChar :: "char \<Rightarrow> bool" where
  "isSafeChar c = (let n = (of_char c :: nat) in
     (97 \<le> n \<and> n \<le> 122) \<or> (65 \<le> n \<and> n \<le> 90) \<or> (48 \<le> n \<and> n \<le> 57) \<or>
     c = CHR ''.'' \<or> c = CHR ''_'' \<or> c = CHR ''-'')"

definition sanitizeFolderName :: "string \<Rightarrow> string" where
  "sanitizeFolderName name =
     take 120 (map (\<lambda>c. if isSafeChar c then c else CHR ''_'') name)"

definition folderPrefix :: "string \<Rightarrow> string \<Rightarrow> string" where
  "folderPrefix businessId folderIdStr = businessId @ ''/folders/'' @ folderIdStr @ ''/''"

text \<open>\<open>new Types.ObjectId(s)\<close> throws on a string that is not an id.\<close>

definition bsonError :: error where
  "bsonError = Error ''input must be a 24 character hex string, 12 byte Uint8Array, or an integer''"

definition addChildFolderToFolder :: "string \<Rightarrow> string \<Rightarrow> db \<Rightarrow> (error + unit) \<times> db" where
  "addChildFolderToFolder parentIdArg childFolderId s =
     (if \<not> isValidObjectId parentIdArg \<or> \<not> isValidObjectId childFolderId
      then (Inl bsonError, s)
      else case findFolderById (ObjectId parentIdArg) (folders s) of
        None \<Rightarrow> (Inl (Error (''Parent folder with ID '' @ parentIdArg @ '' not found.'')), s)
      | Some parentFolderDoc \<Rightarrow>
          if ObjectId childFolderId \<in> set (folderIds parentFolderDoc) then (Inr (), s)
          else (Inr (),
                s\<lparr>folders := updateFirst (\<lambda>f. folder_id f = ObjectId parentIdArg)
                    (\<lambda>f. f\<lparr>folderIds := folderIds parentFolderDoc @ [ObjectId childFolderId]\<rparr>)
                    (folders s)\<rparr>))"

definition removeChildFolderFromFolder :: "string \<Rightarrow> string \<Rightarrow> db \<Rightarrow> (error + unit) \<times> db" where
  "removeChildFolderFromFolder parentIdArg childFolderId s =
     (if \<not> isValidObjectId parentIdArg \<or> \<not> isValidObjectId childFolderId
      then (Inl bsonError, s)
      else case findFolderById (ObjectId parentIdArg) (folders s) of
        None \<Rightarrow> (Inl (Error (''Parent folder with ID '' @ parentIdArg @ '' not found.'')), s)
      | Some parentFolderDoc \<Rightarrow>
          (Inr (),
           s\<lparr>folders := updateFirst (\<lambda>f. folder_id f = ObjectId parentIdArg)
               (\<lambda>f. f\<lparr>folderIds := pull (ObjectId childFolderId) (folderIds parentFolderDoc)\<rparr>)
               (folders s)\<rparr>))"


text \<open>
  \<open>parentFolderId: string | null\<close>: the empty string is falsy, so it counts as no parent.
\<close>

definition parentOf :: "string option \<Rightarrow> string option" where
  "parentOf parentIdArg =
     (case parentIdArg of None \<Rightarrow> None | Some p \<Rightarrow> if p = [] then None else Some p)"

text \<open>
  \<open>createFolder\<close>; \<open>newFolderId\<close> is the id that \<open>new Types.ObjectId()\<close> generates.
  Saving the document runs the schema's validators: \<open>folderName\<close> is required and must
  not be empty.
\<close>

definition createFolder ::
  "string \<Rightarrow> string \<Rightarrow> string \<Rightarrow> string option \<Rightarrow> oid \<Rightarrow> db \<Rightarrow> (error + folder_doc) \<times> db" where
  "createFolder folderNameArg userIdArg businessId parentFolderIdArg newFolderId s =
     (if folderNameArg = [] \<or> userIdArg = [] \<or> businessId = []
        then (Inl (Error ''User ID, Business ID, and Folder Name are required.''), s)
      else if \<not> isValidObjectId userIdArg then (Inl (Error ''Invalid userId''), s)
      else if \<not> isValidObjectId businessId then (Inl (Error ''Invalid businessId''), s)
      else if (case parentOf parentFolderIdArg of None \<Rightarrow> False | Some p \<Rightarrow> \<not> isValidObjectId p)
        then (Inl (Error ''Invalid parentFolderId''), s)
      else
        let normalizedName = sanitizeFolderName (trim folderNameArg);
            parent = map_option ObjectId (parentOf parentFolderIdArg)
        in case find (\<lambda>f. folder_businessId f = ObjectId businessId \<and> parentFolderId f = parent \<and>
                        folderName f = normalizedName) (folders s) of
             Some _ \<Rightarrow>
               (Inl (Error (''A folder named '' @ [CHR 0x22] @ normalizedName @ [CHR 0x22] @
                            '' already exists in this location.'')), s)
           | None \<Rightarrow>
               if normalizedName = []
                 then (Inl (Error ''Folder validation failed: folderName: folderName is required''), s)
               else
                 let folderDoc = \<lparr>folder_id = newFolderId, folderName = normalizedName,
                                  folder_userId = ObjectId userIdArg,
                                  folder_businessId = ObjectId businessId,
                                  parentFolderId = parent,
                                  folder_s3Key = folderPrefix businessId (toString newFolderId),
                                  fileIds = [], folderIds = []\<rparr>;
                     s1 = s\<lparr>folders := folders s @ [folderDoc]\<rparr>;
                     (r, s2) = (case parentOf parentFolderIdArg of
                                  None \<Rightarrow> (Inr (), s1)
                                | Some p \<Rightarrow> addChildFolderToFolder p (toString newFolderId) s1)
                 in case r of
                      Inl e \<Rightarrow> (Inl e, s2)
                    | Inr _ \<Rightarrow>
                        (case findFolderById newFolderId (folders s2) of
                           None \<Rightarrow> (Inl (Error ''Folder creation failed.''), s2)
                         | Some created \<Rightarrow> (Inr created, s2)))"

text \<open>
  An update payload (\<open>Partial<FolderSchemaType>\<close>): each field is given or absent;
  \<open>parentFolderId\<close> can be given as null. \<open>findByIdAndUpdate\<close> sets the given fields,
  through the schema's \<open>trim\<close> setters.
\<close>

record folder_update =
  u_folderName :: "string option"
  u_userId :: "oid option"
  u_businessId :: "oid option"
  u_parentFolderId :: "oid option option"
  u_s3Key :: "string option"
  u_fileIds :: "oid list option"
  u_folderIds :: "oid list option"

definition setField :: "'a option \<Rightarrow> 'a \<Rightarrow> 'a" where
  "setField given old = (case given of None \<Rightarrow> old | Some v \<Rightarrow> v)"

definition applyFolderUpdate :: "folder_update \<Rightarrow> folder_doc \<Rightarrow> folder_doc" where
  "applyFolderUpdate u f =
     f\<lparr>folderName := setField (map_option trim (u_folderName u)) (folderName f),
       folder_userId := setField (u_userId u) (folder_userId f),
       folder_businessId := setField (u_businessId u) (folder_businessId f),
       parentFolderId := setField (u_parentFolderId u) (parentFolderId f),
       folder_s3Key := setField (map_option trim (u_s3Key u)) (folder_s3Key f),
       fileIds := setField (u_fileIds u) (fileIds f),
       folderIds := setField (u_folderIds u) (folderIds f)\<rparr>"

definition updateFolder :: "string \<Rightarrow> folder_update \<Rightarrow> db \<Rightarrow> (error + folder_doc option) \<times> db" where
  "updateFolder idArg folderData s =
     (if \<not> isValidObjectId idArg then (Inl (Error ''Invalid folder ID''), s)
      else
        let update1 = (case u_folderName folderData of
                         None \<Rightarrow> folderData
                       | Some n \<Rightarrow> if n = [] then folderData
                                  else folderData\<lparr>u_folderName := Some (sanitizeFolderName (trim n))\<rparr>);
            update = update1\<lparr>u_s3Key := None\<rparr>;
            s' = s\<lparr>folders := updateFirst (\<lambda>f. folder_id f = ObjectId idArg)
                                  (applyFolderUpdate update) (folders s)\<rparr>
        in (Inr (findFolderById (ObjectId idArg) (folders s')), s'))"

text \<open>
  \<open>deleteFolder\<close>. The events are the write calls issued to the blob store and to the
  collections, oldest first. The walk keeps the ids' renderings on its stack and pops
  from the end.
\<close>

datatype event =
    S3DeletePrefix string
  | FileDeleteMany oid
  | FolderFindByIdAndDelete oid
  | FolderPull oid oid

function deleteSubtree :: "string list \<Rightarrow> db \<Rightarrow> event list \<Rightarrow> db \<times> event list" where
  "deleteSubtree folderIdStack s ev =
     (if folderIdStack = [] then (s, ev)
      else case findFolderById (ObjectId (last folderIdStack)) (folders s) of
        None \<Rightarrow> deleteSubtree (butlast folderIdStack) s ev
      | Some childFolder \<Rightarrow>
          deleteSubtree
            (butlast folderIdStack @ map toString (folderIds childFolder))
            (s\<lparr>files := deleteMany (\<lambda>f. folderId f = Some (ObjectId (last folderIdStack))) (files s),
               folders := deleteFirst (\<lambda>f. folder_id f = ObjectId (last folderIdStack)) (folders s)\<rparr>)
            (ev @ [S3DeletePrefix (folder_s3Key childFolder),
                   FileDeleteMany (ObjectId (last folderIdStack)),
                   FolderFindByIdAndDelete (ObjectId (last folderIdStack))]))"
  by pat_completeness auto

termination deleteSubtree
proof (relation "measures [\<lambda>(st, s, ev). length (folders s), \<lambda>(st, s, ev). length st]")
  have shorter: "find P xs = Some x \<Longrightarrow> length (deleteFirst P xs) < length xs"
    for P and xs :: "folder_doc list" and x
    by (induction xs) (auto split: if_splits)
  fix folderIdStack :: "string list" and s :: db and ev :: "event list" and childFolder
  assume "folderIdStack \<noteq> []"
  then show "((butlast folderIdStack, s, ev), folderIdStack, s, ev)
      \<in> measures [\<lambda>(st, s, ev). length (folders s), \<lambda>(st, s, ev). length st]"
    by simp
  assume "findFolderById (ObjectId (last folderIdStack)) (folders s) = Some childFolder"
  then have "length (deleteFirst (\<lambda>f. folder_id f = ObjectId (last folderIdStack)) (folders s))
      < length (folders s)"
    unfolding findFolderById_def by (rule shorter)
  then show "((butlast folderIdStack @ map toString (folderIds childFolder),
        s\<lparr>files := deleteMany (\<lambda>f. folderId f = Some (ObjectId (last folderIdStack))) (files s),
          folders := deleteFirst (\<lambda>f. folder_id f = ObjectId (last folderIdStack)) (folders s)\<rparr>,
        ev @ [S3DeletePrefix (folder_s3Key childFolder),
              FileDeleteMany (ObjectId (last folderIdStack)),
              FolderFindByIdAndDelete (ObjectId (last folderIdStack))]),
       folderIdStack, s, ev)
      \<in> measures [\<lambda>(st, s, ev). length (folders s), \<lambda>(st, s, ev). length st]"
    by simp
qed simp

declare deleteSubtree.simps [simp del]

definition deleteFolder :: "string \<Rightarrow> db \<Rightarrow> (error + folder_doc option) \<times> db \<times> event list" where
  "deleteFolder idArg s =
     (if \<not> isValidObjectId idArg then (Inl (Error ''Invalid folder ID''), s, [])
      else case findFolderById (ObjectId idArg) (folders s) of
        None \<Rightarrow> (Inl (Error ''Folder not found in the database''), s, [])
      | Some rootFolder \<Rightarrow>
          let s1 = s\<lparr>files := deleteMany (\<lambda>f. folderId f = Some (ObjectId idArg)) (files s)\<rparr>;
              (s2, ev2) = deleteSubtree (map toString (folderIds rootFolder)) s1
                            [S3DeletePrefix (folder_s3Key rootFolder), FileDeleteMany (ObjectId idArg)];
              (s3, ev3) = (case parentFolderId rootFolder of
                             None \<Rightarrow> (s2, ev2)
                           | Some parent \<Rightarrow>
                               (s2\<lparr>folders := updateFirst (\<lambda>f. folder_id f = parent)
                                     (\<lambda>f. f\<lparr>folderIds := pull (ObjectId idArg) (folderIds f)\<rparr>)
                                     (folders s2)\<rparr>,
                                ev2 @ [FolderPull parent (ObjectId idArg)]))
          in (Inr (findFolderById (ObjectId idArg) (folders s3)),
              s3\<lparr>folders := deleteFirst (\<lambda>f. folder_id f = ObjectId idArg) (folders s3)\<rparr>,
              ev3 @ [FolderFindByIdAndDelete (ObjectId idArg)]))"

section \<open>File service\<close>







section \<open>Permission service\<close>

datatype accessLevelInput = Single string | Many "string list"

definition validateAccessLevel :: "accessLevelInput \<Rightarrow> bool" where
  "validateAccessLevel accessLevelArg =
     (case accessLevelArg of
        Many levels \<Rightarrow> list_all (\<lambda>level. level \<in> set ACCESS_LEVELS) levels
      | Single level \<Rightarrow> level \<in> set ACCESS_LEVELS)"

definition toLevels :: "accessLevelInput \<Rightarrow> string list" where
  "toLevels accessLevelArg = (case accessLevelArg of Many levels \<Rightarrow> levels | Single level \<Rightarrow> [level])"

text \<open>
  \<open>$graphLookup\<close> from \<open>folders\<close>, \<open>connectFromField: _id\<close>,
  \<open>connectToField: parentFolderId\<close>, no depth limit: starting from the values of
  \<open>frontier\<close>, collect the documents whose \<open>parentFolderId\<close> is one of them and that
  were not collected before, and go on from their ids until nothing new is found.
\<close>

function graphLookup :: "folder_doc list \<Rightarrow> oid list \<Rightarrow> folder_doc list \<Rightarrow> folder_doc list" where
  "graphLookup coll frontier acc =
     (if filter (\<lambda>f. parentFolderId f \<in> Some ` set frontier \<and>
                     folder_id f \<notin> folder_id ` set acc) coll = []
      then acc
      else graphLookup coll
             (map folder_id (filter (\<lambda>f. parentFolderId f \<in> Some ` set frontier \<and>
                                        folder_id f \<notin> folder_id ` set acc) coll))
             (acc @ filter (\<lambda>f. parentFolderId f \<in> Some ` set frontier \<and>
                                 folder_id f \<notin> folder_id ` set acc) coll))"
  by pat_completeness auto

termination graphLookup
proof (relation "measure (\<lambda>(coll, frontier, acc).
                   length (filter (\<lambda>f. folder_id f \<notin> folder_id ` set acc) coll))")
  fix coll :: "folder_doc list" and frontier :: "oid list" and acc :: "folder_doc list"
  let ?found = "filter (\<lambda>f. parentFolderId f \<in> Some ` set frontier \<and>
                            folder_id f \<notin> folder_id ` set acc) coll"
  let ?rest = "filter (\<lambda>f. folder_id f \<notin> folder_id ` set acc) coll"
  assume "?found \<noteq> []"
  then obtain x where x: "x \<in> set ?found" by (cases ?found) auto
  then have xr: "x \<in> set ?rest" by simp
  have "x \<in> set (acc @ ?found)" using x by simp
  then have nx: "\<not> (folder_id x \<notin> folder_id ` set (acc @ ?found))" by blast
  have "filter (\<lambda>f. folder_id f \<notin> folder_id ` set (acc @ ?found)) coll
      = filter (\<lambda>f. folder_id f \<notin> folder_id ` set (acc @ ?found)) ?rest"
    by (auto intro: filter_cong)
  moreover have "length (filter (\<lambda>f. folder_id f \<notin> folder_id ` set (acc @ ?found)) ?rest)
      < length ?rest"
    using xr nx by (rule length_filter_less)
  ultimately show "((coll, map folder_id ?found, acc @ ?found), coll, frontier, acc)
      \<in> measure (\<lambda>(coll, frontier, acc).
            length (filter (\<lambda>f. folder_id f \<notin> folder_id ` set acc) coll))"
    by simp
qed simp

declare graphLookup.simps [simp del]

text \<open>
  \<open>getAllNestedFoldersAndFiles\<close>. The aggregate starts from the folder matched by
  \<open>_id\<close> (no rows when there is none) and unwinds the folders found below it; the
  files are those whose \<open>folderId\<close> is the given id or one of the folders found.
\<close>

definition nestedFolders :: "string \<Rightarrow> db \<Rightarrow> folder_doc list" where
  "nestedFolders folderIdStr s =
     (case findFolderById (ObjectId folderIdStr) (folders s) of
        None \<Rightarrow> []
      | Some root \<Rightarrow> graphLookup (folders s) [folder_id root] [])"

definition getAllNestedFoldersAndFiles :: "string \<Rightarrow> db \<Rightarrow> (oid \<times> resource) list" where
  "getAllNestedFoldersAndFiles folderIdStr s =
     (let nested = nestedFolders folderIdStr s;
          allFolderIds = ObjectId folderIdStr # map folder_id nested;
          found = filter (\<lambda>f. folderId f \<in> Some ` set allFolderIds) (files s)
      in map (\<lambda>f. (folder_id f, FolderT)) nested @ map (\<lambda>f. (file_id f, FileT)) found)"

text \<open>
  One \<open>updateOne\<close> of the bulk write, with \<open>upsert: true\<close>: the first record matching
  \<open>{userId, targetId, targetType}\<close> gets the access levels and \<open>isGlobal: false\<close>; if there
  is none, a record is inserted under the new id.
\<close>

definition matchesKey :: "oid \<Rightarrow> oid \<Rightarrow> resource \<Rightarrow> permission_doc \<Rightarrow> bool" where
  "matchesKey u t ty p = (userId p = u \<and> targetId p = Some t \<and> targetType p = Some ty)"

definition upsertOne ::
  "oid \<Rightarrow> string list \<Rightarrow> oid \<Rightarrow> oid \<times> resource \<Rightarrow> permission_doc list \<Rightarrow> permission_doc list" where
  "upsertOne u accessLevels newId item ps =
     (if \<exists>p \<in> set ps. matchesKey u (fst item) (snd item) p
      then updateFirst (matchesKey u (fst item) (snd item))
             (\<lambda>p. p\<lparr>accessLevel := accessLevels, isGlobal := False\<rparr>) ps
      else ps @ [\<lparr>perm_id = newId, userId = u, targetId = Some (fst item),
                  targetType = Some (snd item), accessLevel = accessLevels, isGlobal = False\<rparr>])"

text \<open>The ordered bulk write; \<open>mkId k\<close> is the id generated for an insert by operation \<open>k\<close>.\<close>

fun bulkWrite ::
  "oid \<Rightarrow> string list \<Rightarrow> (nat \<Rightarrow> oid) \<Rightarrow> nat \<Rightarrow> (oid \<times> resource) list \<Rightarrow>
   permission_doc list \<Rightarrow> permission_doc list" where
  "bulkWrite u accessLevels mkId k [] ps = ps"
| "bulkWrite u accessLevels mkId k (item # items) ps =
     bulkWrite u accessLevels mkId (Suc k) items (upsertOne u accessLevels (mkId k) item ps)"

definition propagatePermissions :: "string \<Rightarrow> string \<Rightarrow> string list \<Rightarrow> (nat \<Rightarrow> oid) \<Rightarrow> db \<Rightarrow> db" where
  "propagatePermissions userIdArg folderIdStr accessLevels mkId s =
     s\<lparr>permissions := bulkWrite (ObjectId userIdArg) accessLevels mkId 0
                          (getAllNestedFoldersAndFiles folderIdStr s) (permissions s)\<rparr>"

text \<open>
  \<open>grantSpecificPermission\<close>; \<open>newId\<close> is the id of the record that \<open>Permission.create\<close>
  inserts. The messages are the source's without their leading emoji.
\<close>

definition grantSpecificPermission ::
  "string \<Rightarrow> string \<Rightarrow> resource \<Rightarrow> accessLevelInput \<Rightarrow> oid \<Rightarrow> (nat \<Rightarrow> oid) \<Rightarrow> db \<Rightarrow>
   (error + permission_doc option) \<times> db" where
  "grantSpecificPermission userIdArg targetIdArg targetTypeArg accessLevelArg newId mkId s =
     (if \<not> isValidObjectId userIdArg \<or> \<not> isValidObjectId targetIdArg
        then (Inl (Error ''Invalid user ID or target ID''), s)
      else if \<not> validateAccessLevel accessLevelArg
        then (Inl (Error ''Invalid access level(s)''), s)
      else
        let accessLevels = toLevels accessLevelArg;
            key = matchesKey (ObjectId userIdArg) (ObjectId targetIdArg) targetTypeArg;
            s1 = (case find key (permissions s) of
                    Some existingPermission \<Rightarrow>
                      s\<lparr>permissions := updateFirst key (\<lambda>p. p\<lparr>accessLevel := accessLevels\<rparr>)
                                          (permissions s)\<rparr>
                  | None \<Rightarrow>
                      s\<lparr>permissions := permissions s @
                          [\<lparr>perm_id = newId, userId = ObjectId userIdArg,
                            targetId = Some (ObjectId targetIdArg),
                            targetType = Some targetTypeArg,
                            accessLevel = accessLevels, isGlobal = False\<rparr>]\<rparr>);
            s2 = (if targetTypeArg = FolderT
                  then propagatePermissions userIdArg targetIdArg accessLevels mkId s1
                  else s1)
        in (Inr (find key (permissions s2)), s2))"

definition revokePermission :: "string \<Rightarrow> db \<Rightarrow> (error + unit) \<times> db" where
  "revokePermission permissionId s =
     (if \<not> isValidObjectId permissionId then (Inl (Error ''Invalid permission ID''), s)
      else (Inr (),
            s\<lparr>permissions := deleteFirst (\<lambda>p. perm_id p = ObjectId permissionId) (permissions s)\<rparr>))"

text \<open>
  The folders below \<open>root\<close>: those reached from it by following \<open>parentFolderId\<close> links.
\<close>

inductive descends :: "folder_doc list \<Rightarrow> oid \<Rightarrow> folder_doc \<Rightarrow> bool" for coll root where
  child: "f \<in> set coll \<Longrightarrow> parentFolderId f = Some root \<Longrightarrow> descends coll root f"
| below: "descends coll root g \<Longrightarrow> f \<in> set coll \<Longrightarrow> parentFolderId f = Some (folder_id g) \<Longrightarrow>
          descends coll root f"


text \<open>
  The subtree of \<open>root\<close>: the folders below it, and the files whose \<open>folderId\<close> is
  \<open>root\<close> or one of those folders.
\<close>

definition inSubtree :: "db \<Rightarrow> oid \<Rightarrow> oid \<Rightarrow> resource \<Rightarrow> bool" where
  "inSubtree s root d ty =
     (case ty of
        FolderT \<Rightarrow> (\<exists>f \<in> set (folders s). folder_id f = d \<and> descends (folders s) root f)
      | FileT \<Rightarrow>
          (\<exists>g \<in> set (files s). file_id g = d \<and>
             (folderId g = Some root \<or>
              (\<exists>f \<in> set (folders s). descends (folders s) root f \<and> folderId g = Some (folder_id f)))))"

section \<open>A small store\<close>

text \<open>
  Folder Reports (f1) holds folder 2024 (f2), which holds the file q1.pdf (e1); folder
  Other (f3) stands apart. User 7 owns everything; user 8 may write 2024, user 9 may
  write Other and write and delete 2024.
\<close>

definition exampleStore :: db where
  "exampleStore =
     \<lparr>folders =
        [\<lparr>folder_id = 0xf1, folderName = ''Reports'', folder_userId = 7, folder_businessId = 1,
          parentFolderId = None,
          folder_s3Key = ''000000000000000000000001/folders/0000000000000000000000f1/'',
          fileIds = [], folderIds = [0xf2]\<rparr>,
         \<lparr>folder_id = 0xf2, folderName = ''2024'', folder_userId = 7, folder_businessId = 1,
          parentFolderId = Some 0xf1,
          folder_s3Key = ''000000000000000000000001/folders/0000000000000000000000f2/'',
          fileIds = [0xe1], folderIds = []\<rparr>,
         \<lparr>folder_id = 0xf3, folderName = ''Other'', folder_userId = 7, folder_businessId = 1,
          parentFolderId = None,
          folder_s3Key = ''000000000000000000000001/folders/0000000000000000000000f3/'',
          fileIds = [], folderIds = []\<rparr>],
      files =
        [\<lparr>file_id = 0xe1, fileName = ''q1.pdf'', file_userId = 7, file_businessId = 1,
          folderId = Some 0xf2, fileSize = 10000, contentType = None,
          file_s3Key = ''000000000000000000000001/folders/0000000000000000000000f2/files/0000000000000000000000e1-q1.pdf''\<rparr>],
      permissions =
        [\<lparr>perm_id = 0xa1, userId = 8, targetId = Some 0xf2, targetType = Some FolderT,
          accessLevel = [''write''], isGlobal = False\<rparr>,
         \<lparr>perm_id = 0xa2, userId = 9, targetId = Some 0xf3, targetType = Some FolderT,
          accessLevel = [''write''], isGlobal = False\<rparr>,
         \<lparr>perm_id = 0xa3, userId = 9, targetId = Some 0xf2, targetType = Some FolderT,
          accessLevel = [''write'', ''delete''], isGlobal = False\<rparr>]\<rparr>"

text \<open>The ids generated for the records that a bulk write inserts: c0, c1, ...\<close>

definition exampleIds :: "nat \<Rightarrow> oid" where
  "exampleIds k = 0xc0 + of_nat k"

text \<open>The store after user 9 has been granted read on Reports (the direct record gets id b0).\<close>

definition exampleGranted :: db where
  "exampleGranted =
     snd (grantSpecificPermission ''000000000000000000000009'' ''0000000000000000000000f1''
            FolderT (Many [''read'']) 0xb0 exampleIds exampleStore)"

text \<open>
  A tree for deletion: Home (f0) holds Root (f4), which holds A (f5), which holds B (f6)
  with the file b.txt (e6). Root also lists the id dd, which resolves to no folder.
  Folder Other (f3) with the file keep.txt (e3) stands apart.
\<close>

definition exampleTree :: db where
  "exampleTree =
     \<lparr>folders =
        [\<lparr>folder_id = 0xf0, folderName = ''Home'', folder_userId = 7, folder_businessId = 1,
          parentFolderId = None, folder_s3Key = ''1/folders/f0/'',
          fileIds = [], folderIds = [0xf4]\<rparr>,
         \<lparr>folder_id = 0xf4, folderName = ''Root'', folder_userId = 7, folder_businessId = 1,
          parentFolderId = Some 0xf0, folder_s3Key = ''1/folders/f4/'',
          fileIds = [], folderIds = [0xf5, 0xdd]\<rparr>,
         \<lparr>folder_id = 0xf5, folderName = ''A'', folder_userId = 7, folder_businessId = 1,
          parentFolderId = Some 0xf4, folder_s3Key = ''1/folders/f5/'',
          fileIds = [], folderIds = [0xf6]\<rparr>,
         \<lparr>folder_id = 0xf6, folderName = ''B'', folder_userId = 7, folder_businessId = 1,
          parentFolderId = Some 0xf5, folder_s3Key = ''1/folders/f6/'',
          fileIds = [0xe6], folderIds = []\<rparr>,
         \<lparr>folder_id = 0xf3, folderName = ''Other'', folder_userId = 7, folder_businessId = 1,
          parentFolderId = None, folder_s3Key = ''1/folders/f3/'',
          fileIds = [0xe3], folderIds = []\<rparr>],
      files =
        [\<lparr>file_id = 0xe6, fileName = ''b.txt'', file_userId = 7, file_businessId = 1,
          folderId = Some 0xf6, fileSize = 12, contentType = None,
          file_s3Key = ''1/folders/f6/files/e6-b.txt''\<rparr>,
         \<lparr>file_id = 0xe3, fileName = ''keep.txt'', file_userId = 7, file_businessId = 1,
          folderId = Some 0xf3, fileSize = 5, contentType = None,
          file_s3Key = ''1/folders/f3/files/e3-keep.txt''\<rparr>],
      permissions = []\<rparr>"

section \<open>Properties of the values\<close>

lemma hexdigit_inj: "a < 16 \<Longrightarrow> b < 16 \<Longrightarrow> hexdigit a = hexdigit b \<Longrightarrow> a = b"
proof -
  assume a: "a < 16" and b: "b < 16" and e: "hexdigit a = hexdigit b"
  have d: "distinct ''0123456789abcdef''" by simp
  have l: "length ''0123456789abcdef'' = 16" by simp
  from e have "''0123456789abcdef'' ! a = ''0123456789abcdef'' ! b" by (simp add: hexdigit_def)
  with d a b l show "a = b" using nth_eq_iff_index_eq[OF d, of a b] by simp
qed

lemma nibble_lt: "nibble i w < 16"
proof -
  have "unat (take_bit 4 (drop_bit (4 * i) w)) = take_bit 4 (unat (drop_bit (4 * i) w))"
    by (simp add: unsigned_take_bit_eq)
  also have "\<dots> < 2 ^ 4" by (rule take_bit_nat_less_exp)
  finally show ?thesis by (simp add: nibble_def)
qed

lemma bit_nibble: "n < 96 \<Longrightarrow> bit w n = bit (nibble (n div 4) w) (n mod 4)"
  by (simp add: nibble_def bit_unsigned_iff bit_take_bit_iff bit_drop_bit_eq)

lemma toString_nth: "k < 24 \<Longrightarrow> toString w ! k = hexdigit (nibble (23 - k) w)"
  by (simp add: toString_def)

text \<open>Two ObjectIds have the same rendering only if they are the same id.\<close>

lemma toString_inj: "toString a = toString b \<Longrightarrow> a = b"
proof (rule bit_eqI)
  fix n
  assume e: "toString a = toString b"
  assume "possible_bit TYPE(96 word) n"
  then have n: "n < 96" by (simp add: possible_bit_def)
  then have k: "23 - n div 4 < 24" and kk: "23 - (23 - n div 4) = n div 4" by auto
  from e have "toString a ! (23 - n div 4) = toString b ! (23 - n div 4)" by simp
  then have "hexdigit (nibble (n div 4) a) = hexdigit (nibble (n div 4) b)"
    using toString_nth[OF k] kk by simp
  then have "nibble (n div 4) a = nibble (n div 4) b"
    by (rule hexdigit_inj[OF nibble_lt nibble_lt])
  then show "bit a n = bit b n"
    using bit_nibble[OF n] by simp
qed

text \<open>Reading the rendering of an id gives the id back, and the rendering is a valid id string.\<close>

lemma hexval_hexdigit: "n < 16 \<Longrightarrow> hexval (hexdigit n) = Some n"
proof -
  have "list_all (\<lambda>k. hexval (hexdigit k) = Some k) [0..<16]"
    by code_simp
  moreover assume "n < 16"
  ultimately show ?thesis by (simp add: list_all_iff)
qed

lemma parse_prefix:
  "m \<le> 24 \<Longrightarrow>
   foldl (\<lambda>acc c. acc * 16 + of_nat (case hexval c of Some v \<Rightarrow> v | None \<Rightarrow> 0)) (0::oid)
     (map (\<lambda>k. hexdigit (nibble (23 - k) w)) [0..<m]) = drop_bit (4 * (24 - m)) w"
proof (induction m)
  case 0
  show ?case by (simp add: drop_bit_eq_zero_iff_not_bit_last)
next
  case (Suc m)
  then have m: "m \<le> 24" "m < 24" by auto
  let ?x = "drop_bit (4 * (23 - m)) w"
  have a: "drop_bit (4 * (24 - m)) w = drop_bit 4 ?x"
  proof -
    have "4 * (24 - m) = 4 + 4 * (23 - m)" using m by arith
    then show ?thesis by (simp add: drop_bit_drop_bit)
  qed
  have b: "(of_nat (nibble (23 - m) w) :: oid) = take_bit 4 ?x"
    by (simp add: nibble_def)
  have c: "drop_bit 4 ?x * 16 + take_bit 4 ?x = ?x"
    using bits_ident[of 4 ?x] by (simp add: push_bit_eq_mult mult.commute)
  have d: "24 - Suc m = 23 - m" by simp
  show ?case
    using Suc.IH[OF m(1)] by (simp add: hexval_hexdigit nibble_lt a b c d del: drop_bit_drop_bit)
qed

lemma ObjectId_toString [simp]: "ObjectId (toString w) = w"
  using parse_prefix[of 24 w] by (simp add: ObjectId_def toString_def)

lemma isValidObjectId_toString [simp]: "isValidObjectId (toString w)"
  by (simp add: isValidObjectId_def toString_def list_all_iff hexval_hexdigit nibble_lt)

lemma toString_eq_iff [simp]: "toString a = toString b \<longleftrightarrow> a = b"
  using toString_inj by blast

lemma toString_nonempty [simp]: "toString w \<noteq> []"
  by (simp add: toString_def upt_rec)

lemma isAction_levels:
  "isAction a \<longleftrightarrow> a = ''read'' \<or> a = ''write'' \<or> a = ''create'' \<or> a = ''delete'' \<or> a = ''owner''"
  by (auto simp: isAction_def ACCESS_LEVELS_def)

section \<open>Authorization\<close>

text \<open>
  C2 (ownership bypass). For a resource whose recorded owning user is the requester,
  checkPermission lets the request pass for each of the five actions, whatever the
  Permission collection holds.
\<close>

theorem ownership_bypass:
  assumes "action \<in> {''read'', ''write'', ''create'', ''delete'', ''owner''}"
    and "isValidObjectId resourceId"
    and "recordedOwner res (ObjectId resourceId) s = Some u"
  shows "checkPermission res action (Some (mkAuth u)) resourceId (s\<lparr>permissions := ps\<rparr>) = Inr ()"
proof -
  have "isAction action" using assms(1) by (auto simp: isAction_levels)
  moreover have "recordedOwner res (ObjectId resourceId) (s\<lparr>permissions := ps\<rparr>) = Some u"
    using assms(3) by (simp add: recordedOwner_def split: resource.splits)
  ultimately show ?thesis
    using assms(2) by (simp add: checkPermission_def mkAuth_def)
qed

theorem ownership_bypass_witness:
  "checkPermission FolderT ''delete'' (Some (mkAuth 7)) ''0000000000000000000000f1''
     \<lparr>folders = [\<lparr>folder_id = 0xf1, folderName = ''Reports'', folder_userId = 7,
                   folder_businessId = 1, parentFolderId = None, folder_s3Key = ''k/'',
                   fileIds = [], folderIds = []\<rparr>],
      files = [], permissions = []\<rparr> = Inr ()"
proof -
  let ?s = "\<lparr>folders = [\<lparr>folder_id = 0xf1, folderName = ''Reports'', folder_userId = 7,
                   folder_businessId = 1, parentFolderId = None, folder_s3Key = ''k/'',
                   fileIds = [], folderIds = []\<rparr>],
      files = [], permissions = []\<rparr>"
  have a: "''delete'' \<in> {''read'', ''write'', ''create'', ''delete'', ''owner''}" by simp
  have v: "isValidObjectId ''0000000000000000000000f1''"
    by (simp add: isValidObjectId_def hexval_def)
  have o: "recordedOwner FolderT (ObjectId ''0000000000000000000000f1'') ?s = Some 7"
    by (simp add: recordedOwner_def findFolderById_def ObjectId_def hexval_def)
  show ?thesis using ownership_bypass[OF a v o, of "[]"] by simp
qed

text \<open>
  C3 (tiers 2 and 3). For a requester who is not the recorded owner, a global grant
  listing the action is enough, a grant scoped to exactly this resource listing the
  action is enough, and when no grant of either kind lists it the request ends in the
  403 FORBIDDEN error, which is not the 404 of a missing resource.
\<close>

theorem tier_precedence:
  assumes "isAction action"
    and "isValidObjectId resourceId"
    and "recordedOwner res (ObjectId resourceId) s = Some owner"
    and "owner \<noteq> u"
  shows
    "((\<exists>g \<in> set (permissions s). userId g = u \<and> isGlobal g \<and> action \<in> set (accessLevel g))
        \<longrightarrow> checkPermission res action (Some (mkAuth u)) resourceId s = Inr ()) \<and>
     ((\<exists>p \<in> set (permissions s). userId p = u \<and> \<not> isGlobal p \<and>
          targetId p = Some (ObjectId resourceId) \<and> targetType p = Some res \<and>
          action \<in> set (accessLevel p))
        \<longrightarrow> checkPermission res action (Some (mkAuth u)) resourceId s = Inr ()) \<and>
     ((\<forall>p \<in> set (permissions s). userId p = u \<and> action \<in> set (accessLevel p) \<longrightarrow>
          \<not> isGlobal p \<and> \<not> (targetId p = Some (ObjectId resourceId) \<and> targetType p = Some res))
        \<longrightarrow> checkPermission res action (Some (mkAuth u)) resourceId s
              = Inl (AppError 403 ''FORBIDDEN'') \<and>
            AppError 403 ''FORBIDDEN'' \<noteq> notFound res)"
proof -
  have c: "checkPermission res action (Some (mkAuth u)) resourceId s =
      (if hasGlobal u action (permissions s) then Inr ()
       else if hasSpecific u res (ObjectId resourceId) action (permissions s) then Inr ()
       else Inl (AppError 403 ''FORBIDDEN''))"
    using assms by (simp add: checkPermission_def mkAuth_def)
  have n: "AppError 403 ''FORBIDDEN'' \<noteq> notFound res"
    by (simp add: notFound_def split: resource.splits)
  show ?thesis
    unfolding c using n by (auto simp: hasGlobal_def hasSpecific_def)
qed

theorem tier_precedence_witness:
  "checkPermission FolderT ''read'' (Some (mkAuth 9)) ''0000000000000000000000f1''
     \<lparr>folders = [\<lparr>folder_id = 0xf1, folderName = ''Reports'', folder_userId = 7,
                   folder_businessId = 1, parentFolderId = None, folder_s3Key = ''k/'',
                   fileIds = [], folderIds = []\<rparr>],
      files = [],
      permissions = [\<lparr>perm_id = 1, userId = 9, targetId = None, targetType = None,
                       accessLevel = [''read''], isGlobal = True\<rparr>,
                     \<lparr>perm_id = 2, userId = 9, targetId = Some 0xf1, targetType = Some FolderT,
                       accessLevel = [''write''], isGlobal = False\<rparr>]\<rparr> = Inr () \<and>
   checkPermission FolderT ''write'' (Some (mkAuth 9)) ''0000000000000000000000f1''
     \<lparr>folders = [\<lparr>folder_id = 0xf1, folderName = ''Reports'', folder_userId = 7,
                   folder_businessId = 1, parentFolderId = None, folder_s3Key = ''k/'',
                   fileIds = [], folderIds = []\<rparr>],
      files = [],
      permissions = [\<lparr>perm_id = 1, userId = 9, targetId = None, targetType = None,
                       accessLevel = [''read''], isGlobal = True\<rparr>,
                     \<lparr>perm_id = 2, userId = 9, targetId = Some 0xf1, targetType = Some FolderT,
                       accessLevel = [''write''], isGlobal = False\<rparr>]\<rparr> = Inr () \<and>
   checkPermission FolderT ''delete'' (Some (mkAuth 9)) ''0000000000000000000000f1''
     \<lparr>folders = [\<lparr>folder_id = 0xf1, folderName = ''Reports'', folder_userId = 7,
                   folder_businessId = 1, parentFolderId = None, folder_s3Key = ''k/'',
                   fileIds = [], folderIds = []\<rparr>],
      files = [],
      permissions = [\<lparr>perm_id = 1, userId = 9, targetId = None, targetType = None,
                       accessLevel = [''read''], isGlobal = True\<rparr>,
                     \<lparr>perm_id = 2, userId = 9, targetId = Some 0xf1, targetType = Some FolderT,
                       accessLevel = [''write''], isGlobal = False\<rparr>]\<rparr>
     = Inl (AppError 403 ''FORBIDDEN'')"
proof -
  let ?s = "\<lparr>folders = [\<lparr>folder_id = 0xf1, folderName = ''Reports'', folder_userId = 7,
                   folder_businessId = 1, parentFolderId = None, folder_s3Key = ''k/'',
                   fileIds = [], folderIds = []\<rparr>],
      files = [],
      permissions = [\<lparr>perm_id = 1, userId = 9, targetId = None, targetType = None,
                       accessLevel = [''read''], isGlobal = True\<rparr>,
                     \<lparr>perm_id = 2, userId = 9, targetId = Some 0xf1, targetType = Some FolderT,
                       accessLevel = [''write''], isGlobal = False\<rparr>]\<rparr>"
  have v: "isValidObjectId ''0000000000000000000000f1''"
    by (simp add: isValidObjectId_def hexval_def)
  have i: "ObjectId ''0000000000000000000000f1'' = 0xf1"
    by (simp add: ObjectId_def hexval_def)
  have o: "recordedOwner FolderT (ObjectId ''0000000000000000000000f1'') ?s = Some 7"
    by (simp add: i recordedOwner_def findFolderById_def)
  have d: "(7::oid) \<noteq> 9" by simp
  have r: "isAction ''read''" and w: "isAction ''write''" and x: "isAction ''delete''"
    by (simp_all add: isAction_levels)
  have 1: "checkPermission FolderT ''read'' (Some (mkAuth 9)) ''0000000000000000000000f1'' ?s = Inr ()"
    using tier_precedence[OF r v o d] by simp
  have 2: "checkPermission FolderT ''write'' (Some (mkAuth 9)) ''0000000000000000000000f1'' ?s = Inr ()"
    using tier_precedence[OF w v o d] by (simp add: i)
  have 3: "checkPermission FolderT ''delete'' (Some (mkAuth 9)) ''0000000000000000000000f1'' ?s
      = Inl (AppError 403 ''FORBIDDEN'')"
    using tier_precedence[OF x v o d] by simp
  show ?thesis using 1 2 3 by simp
qed

section \<open>Collection primitives: basic facts\<close>

lemma length_updateFirst [simp]: "length (updateFirst P g xs) = length xs"
  by (induction xs) auto

lemma map_updateFirst_frame: "(\<And>x. h (g x) = h x) \<Longrightarrow> map h (updateFirst P g xs) = map h xs"
  by (induction xs) auto


lemma updateFirst_same: "(\<And>x. x \<in> set xs \<Longrightarrow> P x \<Longrightarrow> g x = x) \<Longrightarrow> updateFirst P g xs = xs"
  by (induction xs) auto

section \<open>Updates\<close>



text \<open>The same folder update does take effect on the name, which is sanitized.\<close>

lemma updateFolder_renames:
  "map folderName (folders (snd (updateFolder ''0000000000000000000000f1''
       \<lparr>u_folderName = Some ''Q1 Reports'', u_userId = None, u_businessId = None,
        u_parentFolderId = None, u_s3Key = Some ''other/prefix/'', u_fileIds = None,
        u_folderIds = None\<rparr>
       \<lparr>folders = [\<lparr>folder_id = 0xf1, folderName = ''Reports'', folder_userId = 7,
                     folder_businessId = 1, parentFolderId = None, folder_s3Key = ''b/folders/f1/'',
                     fileIds = [0xe1], folderIds = []\<rparr>],
        files = [],
        permissions = []\<rparr>))) = [''Q1_Reports'']"
  by (simp add: updateFolder_def isValidObjectId_def hexval_def ObjectId_def applyFolderUpdate_def
      setField_def sanitizeFolderName_def trim_def isWhiteSpace_def isSafeChar_def)

section \<open>Child-id lists\<close>




lemma find_Some_set: "find P xs = Some y \<Longrightarrow> y \<in> set xs \<and> P y"
  by (induction xs) (auto split: if_splits)






section \<open>Creating folders\<close>

lemma isValidObjectId_nonempty: "isValidObjectId x \<Longrightarrow> x \<noteq> []"
  by (auto simp: isValidObjectId_def)



text \<open>
  C7 (sibling uniqueness). When the collection holds a folder of the same workspace and
  parent whose name is the sanitized form of the requested name, createFolder fails with
  the "already exists" error and the store is unchanged.
\<close>

theorem sibling_uniqueness:
  assumes "folderNameArg \<noteq> []"
    and "isValidObjectId userIdArg"
    and "isValidObjectId businessId"
    and "case parentOf parentArg of None \<Rightarrow> True | Some p \<Rightarrow> isValidObjectId p"
    and "e \<in> set (folders s)"
    and "folder_businessId e = ObjectId businessId"
    and "parentFolderId e = map_option ObjectId (parentOf parentArg)"
    and "folderName e = sanitizeFolderName (trim folderNameArg)"
  shows "createFolder folderNameArg userIdArg businessId parentArg newFolderId s =
     (Inl (Error (''A folder named '' @ [CHR 0x22] @ sanitizeFolderName (trim folderNameArg) @
                  [CHR 0x22] @ '' already exists in this location.'')), s)"
proof -
  let ?P = "\<lambda>f. folder_businessId f = ObjectId businessId \<and>
      parentFolderId f = map_option ObjectId (parentOf parentArg) \<and>
      folderName f = sanitizeFolderName (trim folderNameArg)"
  have "\<exists>x. find ?P (folders s) = Some x"
    using assms(5-8) by (cases "find ?P (folders s)") (auto simp: find_None_iff)
  then obtain x where x: "find ?P (folders s) = Some x" ..
  have ne: "userIdArg \<noteq> []" "businessId \<noteq> []"
    using assms(2,3) by (auto dest: isValidObjectId_nonempty)
  have pv: "\<not> (case parentOf parentArg of None \<Rightarrow> False | Some p \<Rightarrow> \<not> isValidObjectId p)"
    using assms(4) by (auto split: option.splits)
  show ?thesis
    using assms(1-3) ne pv x by (simp add: createFolder_def Let_def)
qed

theorem sibling_uniqueness_witness:
  "createFolder ''My Docs'' ''000000000000000000000008'' ''000000000000000000000001'' None 0xf2
     \<lparr>folders = [\<lparr>folder_id = 0xf1, folderName = ''My_Docs'', folder_userId = 7,
                   folder_businessId = 1, parentFolderId = None,
                   folder_s3Key = ''000000000000000000000001/folders/0000000000000000000000f1/'',
                   fileIds = [], folderIds = []\<rparr>],
      files = [], permissions = []\<rparr> =
   (Inl (Error (''A folder named '' @ [CHR 0x22] @ ''My_Docs'' @ [CHR 0x22] @
                '' already exists in this location.'')),
     \<lparr>folders = [\<lparr>folder_id = 0xf1, folderName = ''My_Docs'', folder_userId = 7,
                   folder_businessId = 1, parentFolderId = None,
                   folder_s3Key = ''000000000000000000000001/folders/0000000000000000000000f1/'',
                   fileIds = [], folderIds = []\<rparr>],
      files = [], permissions = []\<rparr>)"
proof -
  let ?s = "\<lparr>folders = [\<lparr>folder_id = 0xf1, folderName = ''My_Docs'', folder_userId = 7,
                   folder_businessId = 1, parentFolderId = None,
                   folder_s3Key = ''000000000000000000000001/folders/0000000000000000000000f1/'',
                   fileIds = [], folderIds = []\<rparr>],
      files = [], permissions = []\<rparr>"
  have n: "sanitizeFolderName (trim ''My Docs'') = ''My_Docs''"
    by (simp add: sanitizeFolderName_def trim_def isWhiteSpace_def isSafeChar_def)
  have v: "isValidObjectId ''000000000000000000000008''" "isValidObjectId ''000000000000000000000001''"
    by (simp_all add: isValidObjectId_def hexval_def)
  have i: "ObjectId ''000000000000000000000001'' = 1"
    by (simp add: ObjectId_def hexval_def)
  have p: "case parentOf None of None \<Rightarrow> True | Some p \<Rightarrow> isValidObjectId p"
    by (simp add: parentOf_def)
  have e: "hd (folders ?s) \<in> set (folders ?s)" by simp
  have b: "folder_businessId (hd (folders ?s)) = ObjectId ''000000000000000000000001''"
    by (simp add: i)
  have q: "parentFolderId (hd (folders ?s)) = map_option ObjectId (parentOf None)"
    by (simp add: parentOf_def)
  have m: "folderName (hd (folders ?s)) = sanitizeFolderName (trim ''My Docs'')"
    by (simp add: n)
  have x: "''My Docs'' \<noteq> []" by simp
  show ?thesis
    using sibling_uniqueness[OF x v p e b q m, where newFolderId = "0xf2"] by (simp add: n)
qed







section \<open>The subtree walk\<close>

lemma descends_in_coll: "descends coll root f \<Longrightarrow> f \<in> set coll"
  by (induction rule: descends.induct) auto

lemma graphLookup_sound:
  "\<forall>f \<in> set acc. descends coll root f \<Longrightarrow>
   \<forall>x \<in> set frontier. x = root \<or> (\<exists>g. descends coll root g \<and> folder_id g = x) \<Longrightarrow>
   f \<in> set (graphLookup coll frontier acc) \<Longrightarrow> descends coll root f"
proof (induction coll frontier acc rule: graphLookup.induct)
  case (1 coll frontier acc)
  let ?found = "filter (\<lambda>f. parentFolderId f \<in> Some ` set frontier \<and>
                            folder_id f \<notin> folder_id ` set acc) coll"
  show ?case
  proof (cases "?found = []")
    case True
    then have "graphLookup coll frontier acc = acc" by (subst graphLookup.simps) simp
    then show ?thesis using "1.prems" by simp
  next
    case False
    have d: "descends coll root h" if "h \<in> set ?found" for h
    proof -
      from that obtain x where h: "h \<in> set coll" "parentFolderId h = Some x" "x \<in> set frontier"
        by auto
      from "1.prems"(2) h(3) consider "x = root" | g where "descends coll root g" "folder_id g = x"
        by blast
      then show ?thesis
      proof cases
        case 1
        then show ?thesis using h by (auto intro: descends.child)
      next
        case 2
        then show ?thesis using h by (auto intro: descends.below)
      qed
    qed
    have a: "\<forall>f \<in> set (acc @ ?found). descends coll root f"
      using "1.prems"(1) d by auto
    have b: "\<forall>x \<in> set (map folder_id ?found). x = root \<or> (\<exists>g. descends coll root g \<and> folder_id g = x)"
      using d by auto
    have "graphLookup coll frontier acc = graphLookup coll (map folder_id ?found) (acc @ ?found)"
      using False by (subst graphLookup.simps) simp
    then show ?thesis
      using "1.IH"[OF False a b] "1.prems"(3) by simp
  qed
qed

lemma graphLookup_closed:
  "\<forall>f \<in> set coll. \<forall>p. parentFolderId f = Some p \<longrightarrow> (p = root \<or> p \<in> folder_id ` set acc) \<longrightarrow>
      p \<notin> set frontier \<longrightarrow> folder_id f \<in> folder_id ` set acc \<Longrightarrow>
   f \<in> set coll \<Longrightarrow> parentFolderId f = Some p \<Longrightarrow>
   p = root \<or> p \<in> folder_id ` set (graphLookup coll frontier acc) \<Longrightarrow>
   folder_id f \<in> folder_id ` set (graphLookup coll frontier acc)"
proof (induction coll frontier acc arbitrary: f p rule: graphLookup.induct)
  case (1 coll frontier acc)
  let ?found = "filter (\<lambda>f. parentFolderId f \<in> Some ` set frontier \<and>
                            folder_id f \<notin> folder_id ` set acc) coll"
  show ?case
  proof (cases "?found = []")
    case True
    then have r: "graphLookup coll frontier acc = acc" by (subst graphLookup.simps) simp
    have nofound: "folder_id h \<in> folder_id ` set acc"
      if "h \<in> set coll" "parentFolderId h = Some q" "q \<in> set frontier" for h q
    proof (rule ccontr)
      assume "folder_id h \<notin> folder_id ` set acc"
      then have "h \<in> set ?found" using that by auto
      then show False using True by simp
    qed
    show ?thesis
    proof (cases "p \<in> set frontier")
      case True
      then show ?thesis using nofound[OF "1.prems"(2,3)] r by simp
    next
      case False
      then show ?thesis using "1.prems" r by auto
    qed
  next
    case False
    have r: "graphLookup coll frontier acc = graphLookup coll (map folder_id ?found) (acc @ ?found)"
      using False by (subst graphLookup.simps) simp
    have inv: "\<forall>f \<in> set coll. \<forall>p. parentFolderId f = Some p \<longrightarrow>
        (p = root \<or> p \<in> folder_id ` set (acc @ ?found)) \<longrightarrow>
        p \<notin> set (map folder_id ?found) \<longrightarrow> folder_id f \<in> folder_id ` set (acc @ ?found)"
    proof (intro ballI allI impI)
      fix h q
      assume h: "h \<in> set coll" "parentFolderId h = Some q"
        and q: "q = root \<or> q \<in> folder_id ` set (acc @ ?found)"
        and nq: "q \<notin> set (map folder_id ?found)"
      from q nq have q': "q = root \<or> q \<in> folder_id ` set acc" by auto
      show "folder_id h \<in> folder_id ` set (acc @ ?found)"
      proof (cases "q \<in> set frontier")
        case True
        then show ?thesis using h by (cases "folder_id h \<in> folder_id ` set acc") auto
      next
        case False
        then have "folder_id h \<in> folder_id ` set acc" using "1.prems"(1) h q' by blast
        then show ?thesis by auto
      qed
    qed
    show ?thesis
      using "1.IH"[OF False inv "1.prems"(2,3)] "1.prems"(4) unfolding r by simp
  qed
qed

lemma graphLookup_complete:
  assumes "descends coll root f"
  shows "folder_id f \<in> folder_id ` set (graphLookup coll [root] [])"
  using assms
proof (induction rule: descends.induct)
  case (child f)
  then show ?case by (intro graphLookup_closed[where p = root and root = root]) auto
next
  case (below g f)
  then show ?case
    by (intro graphLookup_closed[where p = "folder_id g" and root = root]) auto
qed

lemma nestedFolders_sound:
  "f \<in> set (nestedFolders folderIdStr s) \<Longrightarrow> descends (folders s) (ObjectId folderIdStr) f"
proof -
  assume m: "f \<in> set (nestedFolders folderIdStr s)"
  then obtain r where r: "findFolderById (ObjectId folderIdStr) (folders s) = Some r"
    and g: "f \<in> set (graphLookup (folders s) [folder_id r] [])"
    by (cases "findFolderById (ObjectId folderIdStr) (folders s)") (auto simp: nestedFolders_def)
  from r have rid: "folder_id r = ObjectId folderIdStr"
    by (auto simp: findFolderById_def dest: find_Some_set)
  show ?thesis
    using g unfolding rid
    by (rule graphLookup_sound[rotated 2]) simp_all
qed

text \<open>
  When no folder has the given id the aggregate has no rows: the walk starts from the
  matched folder document.
\<close>

lemma nestedFolders_missing:
  "findFolderById (ObjectId folderIdStr) (folders s) = None \<Longrightarrow> nestedFolders folderIdStr s = []"
  by (simp add: nestedFolders_def)

lemma nestedFolders_complete:
  "findFolderById (ObjectId folderIdStr) (folders s) \<noteq> None \<Longrightarrow>
   descends (folders s) (ObjectId folderIdStr) f \<Longrightarrow>
   folder_id f \<in> folder_id ` set (nestedFolders folderIdStr s)"
proof -
  assume "findFolderById (ObjectId folderIdStr) (folders s) \<noteq> None"
  then obtain r where r: "findFolderById (ObjectId folderIdStr) (folders s) = Some r" by auto
  then have rid: "folder_id r = ObjectId folderIdStr"
    by (auto simp: findFolderById_def dest: find_Some_set)
  assume "descends (folders s) (ObjectId folderIdStr) f"
  then have "folder_id f \<in> folder_id ` set (graphLookup (folders s) [ObjectId folderIdStr] [])"
    by (rule graphLookup_complete)
  then show ?thesis by (simp add: nestedFolders_def r rid)
qed

lemma nested_items:
  "(d, ty) \<in> set (getAllNestedFoldersAndFiles folderIdStr s) \<longleftrightarrow>
   (ty = FolderT \<and> d \<in> folder_id ` set (nestedFolders folderIdStr s)) \<or>
   (ty = FileT \<and> (\<exists>g \<in> set (files s). file_id g = d \<and>
       (folderId g = Some (ObjectId folderIdStr) \<or>
        (\<exists>f \<in> set (nestedFolders folderIdStr s). folderId g = Some (folder_id f)))))"
  by (auto simp: getAllNestedFoldersAndFiles_def Let_def)

lemma nested_sound:
  "(d, ty) \<in> set (getAllNestedFoldersAndFiles folderIdStr s) \<Longrightarrow>
   inSubtree s (ObjectId folderIdStr) d ty"
  unfolding nested_items inSubtree_def
  using nestedFolders_sound[of _ folderIdStr s] descends_in_coll[of "folders s" "ObjectId folderIdStr"]
  by (cases ty) (simp_all, blast+)

lemma nested_complete:
  assumes "findFolderById (ObjectId folderIdStr) (folders s) \<noteq> None"
    and "inSubtree s (ObjectId folderIdStr) d ty"
  shows "(d, ty) \<in> set (getAllNestedFoldersAndFiles folderIdStr s)"
proof (cases ty)
  case FolderT
  then show ?thesis
    using assms(2) nestedFolders_complete[OF assms(1)]
    by (auto simp: nested_items inSubtree_def)
next
  case FileT
  with assms(2) obtain g where g: "g \<in> set (files s)" "file_id g = d"
    and c: "folderId g = Some (ObjectId folderIdStr) \<or>
        (\<exists>f \<in> set (folders s). descends (folders s) (ObjectId folderIdStr) f \<and>
           folderId g = Some (folder_id f))"
    by (auto simp: inSubtree_def)
  from c have "folderId g = Some (ObjectId folderIdStr) \<or>
        (\<exists>f \<in> set (nestedFolders folderIdStr s). folderId g = Some (folder_id f))"
  proof
    assume "folderId g = Some (ObjectId folderIdStr)"
    then show ?thesis ..
  next
    assume "\<exists>f \<in> set (folders s). descends (folders s) (ObjectId folderIdStr) f \<and>
           folderId g = Some (folder_id f)"
    then obtain f where f: "descends (folders s) (ObjectId folderIdStr) f"
      "folderId g = Some (folder_id f)" by blast
    from nestedFolders_complete[OF assms(1) f(1)]
    obtain f' where f': "f' \<in> set (nestedFolders folderIdStr s)" "folder_id f' = folder_id f" by auto
    have "\<exists>f \<in> set (nestedFolders folderIdStr s). folderId g = Some (folder_id f)"
      using f' f(2) by (intro bexI[of _ f']) simp_all
    then show ?thesis ..
  qed
  then show ?thesis using g FileT unfolding nested_items by blast
qed

section \<open>The bulk write\<close>

lemma updateFirst_nth:
  "i < length xs \<Longrightarrow>
   updateFirst P g xs ! i = xs ! i \<or> (P (xs ! i) \<and> updateFirst P g xs ! i = g (xs ! i))"
proof (induction xs arbitrary: i)
  case Nil
  then show ?case by simp
next
  case (Cons x xs)
  then show ?case by (cases i) auto
qed

lemma updateFirst_mem:
  "x \<in> set xs \<Longrightarrow> x \<in> set (updateFirst P g xs) \<or> (P x \<and> g x \<in> set (updateFirst P g xs))"
  by (induction xs) auto

lemma updateFirst_hit:
  "\<exists>x \<in> set xs. P x \<Longrightarrow> \<exists>x \<in> set xs. P x \<and> g x \<in> set (updateFirst P g xs)"
  by (induction xs) auto

lemma deleteFirst_keeps: "x \<in> set xs \<Longrightarrow> \<not> P x \<Longrightarrow> x \<in> set (deleteFirst P xs)"
  by (induction xs) auto

lemma deleteFirst_length: "length xs \<le> Suc (length (deleteFirst P xs))"
  by (induction xs) auto

lemma deleteFirst_distinct:
  "distinct (map h xs) \<Longrightarrow> deleteFirst (\<lambda>x. h x = a) xs = filter (\<lambda>x. h x \<noteq> a) xs"
proof (induction xs)
  case Nil
  then show ?case by simp
next
  case (Cons x xs)
  show ?case
  proof (cases "h x = a")
    case True
    have "h x \<notin> h ` set xs" using Cons.prems by simp
    then have "\<forall>y \<in> set xs. h y \<noteq> a" using True by (metis imageI)
    then have "filter (\<lambda>x. h x \<noteq> a) xs = xs" by (simp add: filter_id_conv)
    then show ?thesis using True by simp
  next
    case False
    then show ?thesis using Cons by simp
  qed
qed

lemma upsertOne_length: "length ps \<le> length (upsertOne u lv n item ps)"
  by (simp add: upsertOne_def)

lemma upsertOne_nth_old:
  "i < length ps \<Longrightarrow>
   upsertOne u lv n item ps ! i = ps ! i \<or>
   (matchesKey u (fst item) (snd item) (ps ! i) \<and>
    upsertOne u lv n item ps ! i = (ps ! i)\<lparr>accessLevel := lv, isGlobal := False\<rparr>)"
  using updateFirst_nth[of i ps "matchesKey u (fst item) (snd item)"
      "\<lambda>p. p\<lparr>accessLevel := lv, isGlobal := False\<rparr>"]
  by (auto simp: upsertOne_def nth_append)

lemma upsertOne_nth_new:
  "length ps \<le> i \<Longrightarrow> i < length (upsertOne u lv n item ps) \<Longrightarrow>
   upsertOne u lv n item ps ! i =
     \<lparr>perm_id = n, userId = u, targetId = Some (fst item), targetType = Some (snd item),
      accessLevel = lv, isGlobal = False\<rparr>"
  by (auto simp: upsertOne_def nth_append split: if_splits)

lemma upsertOne_establishes:
  "\<exists>p \<in> set (upsertOne u lv n item ps).
     matchesKey u (fst item) (snd item) p \<and> accessLevel p = lv \<and> \<not> isGlobal p"
proof (cases "\<exists>p \<in> set ps. matchesKey u (fst item) (snd item) p")
  case True
  from updateFirst_hit[OF True, of "\<lambda>p. p\<lparr>accessLevel := lv, isGlobal := False\<rparr>"]
  obtain x where "matchesKey u (fst item) (snd item) x"
    "x\<lparr>accessLevel := lv, isGlobal := False\<rparr> \<in> set (upsertOne u lv n item ps)"
    using True by (auto simp: upsertOne_def)
  then show ?thesis
    by (intro bexI[of _ "x\<lparr>accessLevel := lv, isGlobal := False\<rparr>"]) (simp_all add: matchesKey_def)
next
  case False
  then show ?thesis by (auto simp: upsertOne_def matchesKey_def)
qed

lemma upsertOne_preserves:
  assumes "p \<in> set ps" "matchesKey u d ty p" "accessLevel p = lv" "\<not> isGlobal p"
  shows "\<exists>q \<in> set (upsertOne u lv n item ps). matchesKey u d ty q \<and> accessLevel q = lv \<and> \<not> isGlobal q"
proof (cases "\<exists>p \<in> set ps. matchesKey u (fst item) (snd item) p")
  case True
  from updateFirst_mem[OF assms(1), of "matchesKey u (fst item) (snd item)"
      "\<lambda>p. p\<lparr>accessLevel := lv, isGlobal := False\<rparr>"]
  have "p \<in> set (upsertOne u lv n item ps) \<or>
      p\<lparr>accessLevel := lv, isGlobal := False\<rparr> \<in> set (upsertOne u lv n item ps)"
    using True by (auto simp: upsertOne_def)
  then show ?thesis
  proof
    assume "p \<in> set (upsertOne u lv n item ps)"
    then show ?thesis using assms by blast
  next
    assume "p\<lparr>accessLevel := lv, isGlobal := False\<rparr> \<in> set (upsertOne u lv n item ps)"
    then show ?thesis using assms(2)
      by (intro bexI[of _ "p\<lparr>accessLevel := lv, isGlobal := False\<rparr>"]) (simp_all add: matchesKey_def)
  qed
next
  case False
  then show ?thesis using assms by (auto simp: upsertOne_def)
qed

lemma bulkWrite_length: "length ps \<le> length (bulkWrite u lv mk k items ps)"
proof (induction items arbitrary: ps k)
  case Nil
  then show ?case by simp
next
  case (Cons item items)
  show ?case
    using Cons.IH[where ps = "upsertOne u lv (mk k) item ps" and k = "Suc k"]
      upsertOne_length[of ps u lv "mk k" item]
    by simp
qed

lemma bulkWrite_preserves:
  "p \<in> set ps \<Longrightarrow> matchesKey u d ty p \<Longrightarrow> accessLevel p = lv \<Longrightarrow> \<not> isGlobal p \<Longrightarrow>
   \<exists>q \<in> set (bulkWrite u lv mk k items ps). matchesKey u d ty q \<and> accessLevel q = lv \<and> \<not> isGlobal q"
proof (induction items arbitrary: ps k p)
  case Nil
  then show ?case by auto
next
  case (Cons item items)
  from upsertOne_preserves[OF Cons.prems, of "mk k" item]
  obtain q where "q \<in> set (upsertOne u lv (mk k) item ps)" "matchesKey u d ty q"
    "accessLevel q = lv" "\<not> isGlobal q" by blast
  then show ?case
    using Cons.IH[where p = q and ps = "upsertOne u lv (mk k) item ps" and k = "Suc k"] by simp
qed

lemma bulkWrite_complete:
  "item \<in> set items \<Longrightarrow>
   \<exists>q \<in> set (bulkWrite u lv mk k items ps).
     matchesKey u (fst item) (snd item) q \<and> accessLevel q = lv \<and> \<not> isGlobal q"
proof (induction items arbitrary: ps k)
  case Nil
  then show ?case by simp
next
  case (Cons x items)
  show ?case
  proof (cases "item = x")
    case True
    from upsertOne_establishes[of u lv "mk k" x ps]
    obtain p where "p \<in> set (upsertOne u lv (mk k) x ps)" "matchesKey u (fst x) (snd x) p"
      "accessLevel p = lv" "\<not> isGlobal p" by blast
    then show ?thesis
      using bulkWrite_preserves[where p = p and ps = "upsertOne u lv (mk k) x ps" and u = u
          and d = "fst x" and ty = "snd x" and lv = lv and mk = mk and k = "Suc k" and items = items] True
      by simp
  next
    case False
    then have "item \<in> set items" using Cons.prems by simp
    then show ?thesis
      using Cons.IH[where ps = "upsertOne u lv (mk k) x ps" and k = "Suc k"] by simp
  qed
qed

lemma bulkWrite_frame:
  "i < length ps \<Longrightarrow> \<forall>item \<in> set items. \<not> matchesKey u (fst item) (snd item) (ps ! i) \<Longrightarrow>
   bulkWrite u lv mk k items ps ! i = ps ! i"
proof (induction items arbitrary: ps k)
  case Nil
  then show ?case by simp
next
  case (Cons x items)
  have a: "upsertOne u lv (mk k) x ps ! i = ps ! i"
    using upsertOne_nth_old[OF Cons.prems(1), of u lv "mk k" x] Cons.prems(2) by auto
  have b: "i < length (upsertOne u lv (mk k) x ps)"
    using Cons.prems(1) upsertOne_length[of ps u lv "mk k" x] by simp
  show ?case
    using Cons.IH[OF b, where k = "Suc k"] a Cons.prems(2) by simp
qed

lemma bulkWrite_nth:
  "i < length (bulkWrite u lv mk k items ps) \<Longrightarrow>
   (i < length ps \<and> bulkWrite u lv mk k items ps ! i = ps ! i) \<or>
   (userId (bulkWrite u lv mk k items ps ! i) = u \<and>
    accessLevel (bulkWrite u lv mk k items ps ! i) = lv \<and>
    \<not> isGlobal (bulkWrite u lv mk k items ps ! i) \<and>
    (\<exists>item \<in> set items. targetId (bulkWrite u lv mk k items ps ! i) = Some (fst item) \<and>
                         targetType (bulkWrite u lv mk k items ps ! i) = Some (snd item)))"
proof (induction items arbitrary: ps k)
  case Nil
  then show ?case by simp
next
  case (Cons x items)
  let ?ps1 = "upsertOne u lv (mk k) x ps"
  let ?r = "bulkWrite u lv mk (Suc k) items ?ps1"
  have i: "i < length ?r" using Cons.prems by simp
  from Cons.IH[OF i] consider
      (same) "i < length ?ps1" "?r ! i = ?ps1 ! i"
    | (written) "userId (?r ! i) = u" "accessLevel (?r ! i) = lv" "\<not> isGlobal (?r ! i)"
        "\<exists>item \<in> set items. targetId (?r ! i) = Some (fst item) \<and> targetType (?r ! i) = Some (snd item)"
    by blast
  then show ?case
  proof cases
    case same
    show ?thesis
    proof (cases "i < length ps")
      case True
      from upsertOne_nth_old[OF True, of u lv "mk k" x]
      show ?thesis using same True by (auto simp: matchesKey_def)
    next
      case False
      then have "?ps1 ! i = \<lparr>perm_id = mk k, userId = u, targetId = Some (fst x),
          targetType = Some (snd x), accessLevel = lv, isGlobal = False\<rparr>"
        using same(1) by (intro upsertOne_nth_new) simp_all
      then show ?thesis using same by simp
    qed
  next
    case written
    then show ?thesis by auto
  qed
qed

lemma nested_permissions_irrelevant [simp]:
  "getAllNestedFoldersAndFiles F (s\<lparr>permissions := ps\<rparr>) = getAllNestedFoldersAndFiles F s"
  by (simp add: getAllNestedFoldersAndFiles_def nestedFolders_def split: option.splits)

lemma inSubtree_permissions_irrelevant [simp]:
  "inSubtree (s\<lparr>permissions := ps\<rparr>) r d ty = inSubtree s r d ty"
  by (cases ty) (simp_all add: inSubtree_def)

lemma grant_unfold:
  assumes "grantSpecificPermission U F FolderT arg newId mkId s = (Inr g, s')"
  shows "isValidObjectId U \<and> isValidObjectId F \<and> validateAccessLevel arg \<and>
     (\<exists>ps1. s' = propagatePermissions U F (toLevels arg) mkId (s\<lparr>permissions := ps1\<rparr>)) \<and>
     g = find (matchesKey (ObjectId U) (ObjectId F) FolderT) (permissions s')"
  using assms
  by (auto simp: grantSpecificPermission_def Let_def split: if_splits option.splits)

lemma grant_reaches_subtree:
  assumes g: "grantSpecificPermission U F FolderT arg newId mkId s = (Inr g, s')"
    and f: "findFolderById (ObjectId F) (folders s) \<noteq> None"
    and d: "inSubtree s (ObjectId F) d ty"
  shows "folders s' = folders s \<and> files s' = files s \<and>
     (\<exists>p \<in> set (permissions s'). matchesKey (ObjectId U) d ty p \<and>
        accessLevel p = toLevels arg \<and> \<not> isGlobal p)"
proof -
  from grant_unfold[OF g] obtain ps1 where
    s': "s' = propagatePermissions U F (toLevels arg) mkId (s\<lparr>permissions := ps1\<rparr>)" by blast
  have "(d, ty) \<in> set (getAllNestedFoldersAndFiles F s)"
    using f d by (rule nested_complete)
  then have "\<exists>q \<in> set (bulkWrite (ObjectId U) (toLevels arg) mkId 0
        (getAllNestedFoldersAndFiles F s) ps1).
     matchesKey (ObjectId U) d ty q \<and> accessLevel q = toLevels arg \<and> \<not> isGlobal q"
    using bulkWrite_complete[of "(d, ty)" "getAllNestedFoldersAndFiles F s"] by simp
  then show ?thesis by (simp add: s' propagatePermissions_def)
qed


section \<open>The small store, evaluated\<close>

lemma example_ids:
  "isValidObjectId ''000000000000000000000009''" "isValidObjectId ''0000000000000000000000f1''"
  "isValidObjectId ''0000000000000000000000e1''" "isValidObjectId ''0000000000000000000000f2''"
  "isValidObjectId ''0000000000000000000000b0''"
  "ObjectId ''000000000000000000000009'' = 9" "ObjectId ''0000000000000000000000f1'' = 0xf1"
  "ObjectId ''0000000000000000000000e1'' = 0xe1" "ObjectId ''0000000000000000000000f2'' = 0xf2"
  "ObjectId ''0000000000000000000000b0'' = 0xb0"
  by (simp_all add: isValidObjectId_def ObjectId_def hexval_def)

lemma example_nested:
  "getAllNestedFoldersAndFiles ''0000000000000000000000f1'' exampleStore
     = [(0xf2, FolderT), (0xe1, FileT)]"
  by (simp add: getAllNestedFoldersAndFiles_def nestedFolders_def findFolderById_def
      exampleStore_def example_ids graphLookup.simps)

lemma example_granted:
  "grantSpecificPermission ''000000000000000000000009'' ''0000000000000000000000f1''
     FolderT (Many [''read'']) 0xb0 exampleIds exampleStore =
   (Inr (Some \<lparr>perm_id = 0xb0, userId = 9, targetId = Some 0xf1, targetType = Some FolderT,
                accessLevel = [''read''], isGlobal = False\<rparr>), exampleGranted)"
  "permissions exampleGranted =
     [\<lparr>perm_id = 0xa1, userId = 8, targetId = Some 0xf2, targetType = Some FolderT,
       accessLevel = [''write''], isGlobal = False\<rparr>,
      \<lparr>perm_id = 0xa2, userId = 9, targetId = Some 0xf3, targetType = Some FolderT,
       accessLevel = [''write''], isGlobal = False\<rparr>,
      \<lparr>perm_id = 0xa3, userId = 9, targetId = Some 0xf2, targetType = Some FolderT,
       accessLevel = [''read''], isGlobal = False\<rparr>,
      \<lparr>perm_id = 0xb0, userId = 9, targetId = Some 0xf1, targetType = Some FolderT,
       accessLevel = [''read''], isGlobal = False\<rparr>,
      \<lparr>perm_id = 0xc1, userId = 9, targetId = Some 0xe1, targetType = Some FileT,
       accessLevel = [''read''], isGlobal = False\<rparr>]"
  "folders exampleGranted = folders exampleStore"
  "files exampleGranted = files exampleStore"
proof -
  have n: "getAllNestedFoldersAndFiles ''0000000000000000000000f1''
      (exampleStore\<lparr>permissions := ps\<rparr>) = [(0xf2, FolderT), (0xe1, FileT)]" for ps
    by (simp add: example_nested)
  have p: "permissions exampleStore = [\<lparr>perm_id = 0xa1, userId = 8, targetId = Some 0xf2, targetType = Some FolderT,
          accessLevel = [''write''], isGlobal = False\<rparr>,
         \<lparr>perm_id = 0xa2, userId = 9, targetId = Some 0xf3, targetType = Some FolderT,
          accessLevel = [''write''], isGlobal = False\<rparr>,
         \<lparr>perm_id = 0xa3, userId = 9, targetId = Some 0xf2, targetType = Some FolderT,
          accessLevel = [''write'', ''delete''], isGlobal = False\<rparr>]"
    by (simp add: exampleStore_def)
  show g: "permissions exampleGranted =
     [\<lparr>perm_id = 0xa1, userId = 8, targetId = Some 0xf2, targetType = Some FolderT,
       accessLevel = [''write''], isGlobal = False\<rparr>,
      \<lparr>perm_id = 0xa2, userId = 9, targetId = Some 0xf3, targetType = Some FolderT,
       accessLevel = [''write''], isGlobal = False\<rparr>,
      \<lparr>perm_id = 0xa3, userId = 9, targetId = Some 0xf2, targetType = Some FolderT,
       accessLevel = [''read''], isGlobal = False\<rparr>,
      \<lparr>perm_id = 0xb0, userId = 9, targetId = Some 0xf1, targetType = Some FolderT,
       accessLevel = [''read''], isGlobal = False\<rparr>,
      \<lparr>perm_id = 0xc1, userId = 9, targetId = Some 0xe1, targetType = Some FileT,
       accessLevel = [''read''], isGlobal = False\<rparr>]"
    by (simp add: exampleGranted_def grantSpecificPermission_def Let_def example_ids
        validateAccessLevel_def ACCESS_LEVELS_def toLevels_def propagatePermissions_def example_nested p
        upsertOne_def matchesKey_def exampleIds_def)
  show "folders exampleGranted = folders exampleStore" "files exampleGranted = files exampleStore"
    by (simp_all add: exampleGranted_def grantSpecificPermission_def Let_def example_ids
        validateAccessLevel_def ACCESS_LEVELS_def propagatePermissions_def split: option.splits)
  have f: "fst (grantSpecificPermission ''000000000000000000000009'' ''0000000000000000000000f1''
     FolderT (Many [''read'']) 0xb0 exampleIds exampleStore) =
     Inr (find (matchesKey 9 0xf1 FolderT) (permissions exampleGranted))"
    by (simp add: exampleGranted_def grantSpecificPermission_def Let_def example_ids
        validateAccessLevel_def ACCESS_LEVELS_def)
  have f2: "find (matchesKey 9 0xf1 FolderT) (permissions exampleGranted) =
      Some \<lparr>perm_id = 0xb0, userId = 9, targetId = Some 0xf1, targetType = Some FolderT,
             accessLevel = [''read''], isGlobal = False\<rparr>"
    by (simp add: g matchesKey_def)
  show "grantSpecificPermission ''000000000000000000000009'' ''0000000000000000000000f1''
     FolderT (Many [''read'']) 0xb0 exampleIds exampleStore =
   (Inr (Some \<lparr>perm_id = 0xb0, userId = 9, targetId = Some 0xf1, targetType = Some FolderT,
                accessLevel = [''read''], isGlobal = False\<rparr>), exampleGranted)"
    unfolding prod_eq_iff using f f2 by (simp add: exampleGranted_def)
qed

lemma example_root: "findFolderById (ObjectId ''0000000000000000000000f1'') (folders exampleStore) \<noteq> None"
  by (simp add: example_ids findFolderById_def exampleStore_def)

lemma example_descends: "descends (folders exampleStore) 0xf1 (folders exampleStore ! 1)"
  by (rule descends.child) (simp_all add: exampleStore_def)

lemma example_inSubtree:
  "inSubtree exampleStore (ObjectId ''0000000000000000000000f1'') 0xf2 FolderT"
  "inSubtree exampleStore (ObjectId ''0000000000000000000000f1'') 0xe1 FileT"
proof -
  have m: "folders exampleStore ! 1 \<in> set (folders exampleStore)"
    "folder_id (folders exampleStore ! 1) = 0xf2"
    by (simp_all add: exampleStore_def)
  show "inSubtree exampleStore (ObjectId ''0000000000000000000000f1'') 0xf2 FolderT"
    unfolding inSubtree_def example_ids using m example_descends by auto
  have g: "files exampleStore ! 0 \<in> set (files exampleStore)" "file_id (files exampleStore ! 0) = 0xe1"
    "folderId (files exampleStore ! 0) = Some 0xf2"
    by (simp_all add: exampleStore_def)
  show "inSubtree exampleStore (ObjectId ''0000000000000000000000f1'') 0xe1 FileT"
    unfolding inSubtree_def example_ids using m g example_descends
    by (auto intro!: bexI[of _ "files exampleStore ! 0"] bexI[of _ "folders exampleStore ! 1"])
qed

lemma example_outside:
  "\<not> inSubtree exampleStore (ObjectId ''0000000000000000000000f1'') 0xf3 FolderT"
proof
  assume "inSubtree exampleStore (ObjectId ''0000000000000000000000f1'') 0xf3 FolderT"
  with example_root
  have "(0xf3, FolderT) \<in> set (getAllNestedFoldersAndFiles ''0000000000000000000000f1'' exampleStore)"
    by (rule nested_complete)
  then show False by (simp add: example_nested)
qed

section \<open>Permission propagation\<close>



text \<open>The grant gives user 9 read below Reports, not write on Reports itself.\<close>

lemma example_write_denied:
  "checkPermission FolderT ''write'' (Some (mkAuth 9)) ''0000000000000000000000f1'' exampleGranted
     = Inl (AppError 403 ''FORBIDDEN'')"
  by (simp add: checkPermission_def isAction_levels mkAuth_def example_ids recordedOwner_def
      findFolderById_def example_granted hasGlobal_def hasSpecific_def exampleStore_def)

text \<open>
  C6 (propagation isolation). Propagating a grant of user U on folder F leaves the
  folders and files alone and never removes a Permission record. Each record of the
  result is either the record that stood at that place before, or a record of U, not
  global, for a folder or file of F's subtree, whose access levels are exactly the
  granted list. A record of another user, or for a resource outside the subtree, is
  the same record afterwards.
\<close>

theorem propagation_isolation:
  "folders (propagatePermissions U F lv mkId s) = folders s \<and>
   files (propagatePermissions U F lv mkId s) = files s \<and>
   length (permissions s) \<le> length (permissions (propagatePermissions U F lv mkId s)) \<and>
   (\<forall>i < length (permissions (propagatePermissions U F lv mkId s)).
      (i < length (permissions s) \<and>
       permissions (propagatePermissions U F lv mkId s) ! i = permissions s ! i) \<or>
      (userId (permissions (propagatePermissions U F lv mkId s) ! i) = ObjectId U \<and>
       accessLevel (permissions (propagatePermissions U F lv mkId s) ! i) = lv \<and>
       \<not> isGlobal (permissions (propagatePermissions U F lv mkId s) ! i) \<and>
       (\<exists>d ty. targetId (permissions (propagatePermissions U F lv mkId s) ! i) = Some d \<and>
               targetType (permissions (propagatePermissions U F lv mkId s) ! i) = Some ty \<and>
               inSubtree s (ObjectId F) d ty))) \<and>
   (\<forall>i < length (permissions s).
      (userId (permissions s ! i) \<noteq> ObjectId U \<or>
       (\<forall>d ty. targetId (permissions s ! i) = Some d \<and> targetType (permissions s ! i) = Some ty
                \<longrightarrow> \<not> inSubtree s (ObjectId F) d ty))
      \<longrightarrow> permissions (propagatePermissions U F lv mkId s) ! i = permissions s ! i)"
proof -
  let ?items = "getAllNestedFoldersAndFiles F s"
  let ?r = "bulkWrite (ObjectId U) lv mkId 0 ?items (permissions s)"
  have p: "permissions (propagatePermissions U F lv mkId s) = ?r"
    by (simp add: propagatePermissions_def)
  have 1: "folders (propagatePermissions U F lv mkId s) = folders s"
    "files (propagatePermissions U F lv mkId s) = files s"
    by (simp_all add: propagatePermissions_def)
  have 2: "length (permissions s) \<le> length ?r" by (rule bulkWrite_length)
  have 3: "(i < length (permissions s) \<and> ?r ! i = permissions s ! i) \<or>
      (userId (?r ! i) = ObjectId U \<and> accessLevel (?r ! i) = lv \<and> \<not> isGlobal (?r ! i) \<and>
       (\<exists>d ty. targetId (?r ! i) = Some d \<and> targetType (?r ! i) = Some ty \<and>
               inSubtree s (ObjectId F) d ty))"
    if "i < length ?r" for i
  proof -
    from bulkWrite_nth[OF that] show ?thesis
    proof
      assume "i < length (permissions s) \<and> ?r ! i = permissions s ! i"
      then show ?thesis ..
    next
      assume w: "userId (?r ! i) = ObjectId U \<and> accessLevel (?r ! i) = lv \<and> \<not> isGlobal (?r ! i) \<and>
        (\<exists>item \<in> set ?items. targetId (?r ! i) = Some (fst item) \<and>
                               targetType (?r ! i) = Some (snd item))"
      then obtain item where item: "item \<in> set ?items" "targetId (?r ! i) = Some (fst item)"
        "targetType (?r ! i) = Some (snd item)" by blast
      have "inSubtree s (ObjectId F) (fst item) (snd item)"
        using item(1) by (intro nested_sound) simp
      then show ?thesis using w item by blast
    qed
  qed
  have 4: "?r ! i = permissions s ! i"
    if i: "i < length (permissions s)"
      and o: "userId (permissions s ! i) \<noteq> ObjectId U \<or>
       (\<forall>d ty. targetId (permissions s ! i) = Some d \<and> targetType (permissions s ! i) = Some ty
                \<longrightarrow> \<not> inSubtree s (ObjectId F) d ty)" for i
  proof (rule bulkWrite_frame[OF i], rule ballI)
    fix item
    assume m: "item \<in> set ?items"
    then have "inSubtree s (ObjectId F) (fst item) (snd item)"
      by (intro nested_sound) simp
    then show "\<not> matchesKey (ObjectId U) (fst item) (snd item) (permissions s ! i)"
      using o by (auto simp: matchesKey_def)
  qed
  show ?thesis
    unfolding p using 1[unfolded p] 2 3 4 by (intro conjI allI impI) (simp_all add: 1)
qed

theorem propagation_isolation_witness:
  "permissions (propagatePermissions ''000000000000000000000009'' ''0000000000000000000000f1''
      [''read''] exampleIds exampleStore) ! 0 = permissions exampleStore ! 0 \<and>
   permissions (propagatePermissions ''000000000000000000000009'' ''0000000000000000000000f1''
      [''read''] exampleIds exampleStore) ! 1 = permissions exampleStore ! 1 \<and>
   accessLevel (permissions (propagatePermissions ''000000000000000000000009''
      ''0000000000000000000000f1'' [''read''] exampleIds exampleStore) ! 2) = [''read'']"
proof -
  let ?r = "permissions (propagatePermissions ''000000000000000000000009''
      ''0000000000000000000000f1'' [''read''] exampleIds exampleStore)"
  note t = propagation_isolation[of "''000000000000000000000009''" "''0000000000000000000000f1''"
      "[''read'']" exampleIds exampleStore]
  have p: "permissions exampleStore =
      [\<lparr>perm_id = 0xa1, userId = 8, targetId = Some 0xf2, targetType = Some FolderT,
         accessLevel = [''write''], isGlobal = False\<rparr>,
       \<lparr>perm_id = 0xa2, userId = 9, targetId = Some 0xf3, targetType = Some FolderT,
         accessLevel = [''write''], isGlobal = False\<rparr>,
       \<lparr>perm_id = 0xa3, userId = 9, targetId = Some 0xf2, targetType = Some FolderT,
         accessLevel = [''write'', ''delete''], isGlobal = False\<rparr>]"
    by (simp add: exampleStore_def)
  have l: "length (permissions exampleStore) = 3" by (simp add: p)
  have frame: "i < length (permissions exampleStore) \<Longrightarrow>
      userId (permissions exampleStore ! i) \<noteq> ObjectId ''000000000000000000000009'' \<or>
      (\<forall>d ty. targetId (permissions exampleStore ! i) = Some d \<and>
               targetType (permissions exampleStore ! i) = Some ty \<longrightarrow>
               \<not> inSubtree exampleStore (ObjectId ''0000000000000000000000f1'') d ty) \<Longrightarrow>
      ?r ! i = permissions exampleStore ! i" for i
    using t by blast
  have written: "i < length ?r \<Longrightarrow>
      (i < length (permissions exampleStore) \<and> ?r ! i = permissions exampleStore ! i) \<or>
      accessLevel (?r ! i) = [''read'']" for i
    using t by blast
  have h0: "userId (permissions exampleStore ! 0) \<noteq> ObjectId ''000000000000000000000009''"
    by (simp add: exampleStore_def example_ids)
  have h1: "\<forall>d ty. targetId (permissions exampleStore ! 1) = Some d \<and>
               targetType (permissions exampleStore ! 1) = Some ty \<longrightarrow>
               \<not> inSubtree exampleStore (ObjectId ''0000000000000000000000f1'') d ty"
    using example_outside by (simp add: exampleStore_def)
  have 0: "?r ! 0 = permissions exampleStore ! 0" using frame[of 0] h0 l by simp
  have 1: "?r ! 1 = permissions exampleStore ! 1" using frame[of 1] h1 l by simp
  have "2 < length ?r" using t l by simp
  from written[OF this] have 2: "accessLevel (?r ! 2) = [''read'']"
  proof
    assume "2 < length (permissions exampleStore) \<and> ?r ! 2 = permissions exampleStore ! 2"
    moreover have "?r ! 2 \<noteq> permissions exampleStore ! 2"
      by (simp add: propagatePermissions_def example_nested example_ids upsertOne_def matchesKey_def p)
    ultimately show ?thesis by simp
  qed simp
  show ?thesis using 0 1 2 by simp
qed

text \<open>
  C9 (revoke is local). revokePermission removes the record with the given id and no
  other: every other record stays as it is, in the same order, and at most one record
  goes. In particular, when the revoked record is the folder-level grant that
  grantSpecificPermission has just made and propagated, the records that propagation
  wrote for the folders and files below are still there with the granted levels.
\<close>

theorem revoke_is_local:
  assumes "isValidObjectId permissionId"
    and "distinct (map perm_id (permissions s))"
  shows "fst (revokePermission permissionId s) = Inr () \<and>
     folders (snd (revokePermission permissionId s)) = folders s \<and>
     files (snd (revokePermission permissionId s)) = files s \<and>
     permissions (snd (revokePermission permissionId s))
       = filter (\<lambda>p. perm_id p \<noteq> ObjectId permissionId) (permissions s) \<and>
     length (permissions s) \<le> Suc (length (permissions (snd (revokePermission permissionId s)))) \<and>
     (\<forall>s0 U F arg newId mkId g d ty.
        grantSpecificPermission U F FolderT arg newId mkId s0 = (Inr (Some g), s) \<and>
        permissionId = toString (perm_id g) \<and>
        findFolderById (ObjectId F) (folders s0) \<noteq> None \<and>
        inSubtree s0 (ObjectId F) d ty \<and> (d, ty) \<noteq> (ObjectId F, FolderT)
        \<longrightarrow> (\<exists>p \<in> set (permissions (snd (revokePermission permissionId s))).
               userId p = ObjectId U \<and> targetId p = Some d \<and> targetType p = Some ty \<and>
               accessLevel p = toLevels arg \<and> \<not> isGlobal p))"
proof -
  let ?s2 = "snd (revokePermission permissionId s)"
  have r: "permissions ?s2 = deleteFirst (\<lambda>p. perm_id p = ObjectId permissionId) (permissions s)"
    using assms(1) by (simp add: revokePermission_def)
  have 1: "fst (revokePermission permissionId s) = Inr () \<and> folders ?s2 = folders s \<and>
      files ?s2 = files s"
    using assms(1) by (simp add: revokePermission_def)
  have 2: "permissions ?s2 = filter (\<lambda>p. perm_id p \<noteq> ObjectId permissionId) (permissions s)"
    unfolding r using assms(2) by (rule deleteFirst_distinct)
  have 3: "length (permissions s) \<le> Suc (length (permissions ?s2))"
    unfolding r by (rule deleteFirst_length)
  have 4: "\<exists>p \<in> set (permissions ?s2).
               userId p = ObjectId U \<and> targetId p = Some d \<and> targetType p = Some ty \<and>
               accessLevel p = toLevels arg \<and> \<not> isGlobal p"
    if g: "grantSpecificPermission U F FolderT arg newId mkId s0 = (Inr (Some g), s)"
      and pid: "permissionId = toString (perm_id g)"
      and f: "findFolderById (ObjectId F) (folders s0) \<noteq> None"
      and d: "inSubtree s0 (ObjectId F) d ty"
      and ne: "(d, ty) \<noteq> (ObjectId F, FolderT)"
    for s0 U F arg newId mkId g d ty
  proof -
    from grant_reaches_subtree[OF g f d] obtain p where
      p: "p \<in> set (permissions s)" "matchesKey (ObjectId U) d ty p"
        "accessLevel p = toLevels arg" "\<not> isGlobal p" by blast
    from grant_unfold[OF g]
    have "find (matchesKey (ObjectId U) (ObjectId F) FolderT) (permissions s) = Some g" by simp
    then have gk: "g \<in> set (permissions s)" "matchesKey (ObjectId U) (ObjectId F) FolderT g"
      by (auto dest: find_Some_set)
    have "p \<noteq> g" using p(2) gk(2) ne by (auto simp: matchesKey_def)
    then have "perm_id p \<noteq> perm_id g"
      using assms(2) p(1) gk(1) by (auto simp: distinct_map inj_on_def)
    then have "p \<in> set (permissions ?s2)"
      unfolding 2 using p(1) pid by simp
    then show ?thesis using p by (intro bexI[of _ p]) (simp_all add: matchesKey_def)
  qed
  show ?thesis using 1 2 3 4 by blast
qed

lemma toString_b0: "toString 0xb0 = ''0000000000000000000000b0''"
  by code_simp

theorem revoke_is_local_witness:
  "permissions (snd (revokePermission ''0000000000000000000000b0'' exampleGranted)) =
     [\<lparr>perm_id = 0xa1, userId = 8, targetId = Some 0xf2, targetType = Some FolderT,
       accessLevel = [''write''], isGlobal = False\<rparr>,
      \<lparr>perm_id = 0xa2, userId = 9, targetId = Some 0xf3, targetType = Some FolderT,
       accessLevel = [''write''], isGlobal = False\<rparr>,
      \<lparr>perm_id = 0xa3, userId = 9, targetId = Some 0xf2, targetType = Some FolderT,
       accessLevel = [''read''], isGlobal = False\<rparr>,
      \<lparr>perm_id = 0xc1, userId = 9, targetId = Some 0xe1, targetType = Some FileT,
       accessLevel = [''read''], isGlobal = False\<rparr>] \<and>
   (\<exists>p \<in> set (permissions (snd (revokePermission ''0000000000000000000000b0'' exampleGranted))).
      userId p = 9 \<and> targetId p = Some 0xe1 \<and> targetType p = Some FileT \<and>
      accessLevel p = [''read''] \<and> \<not> isGlobal p)"
proof -
  have d: "distinct (map perm_id (permissions exampleGranted))"
    by (simp add: example_granted)
  note t = revoke_is_local[OF example_ids(5) d]
  have 1: "permissions (snd (revokePermission ''0000000000000000000000b0'' exampleGranted)) =
      filter (\<lambda>p. perm_id p \<noteq> ObjectId ''0000000000000000000000b0'') (permissions exampleGranted)"
    using t by blast
  have g: "grantSpecificPermission ''000000000000000000000009'' ''0000000000000000000000f1''
       FolderT (Many [''read'']) 0xb0 exampleIds exampleStore =
     (Inr (Some \<lparr>perm_id = 0xb0, userId = 9, targetId = Some 0xf1, targetType = Some FolderT,
                  accessLevel = [''read''], isGlobal = False\<rparr>), exampleGranted) \<and>
     ''0000000000000000000000b0'' = toString (perm_id \<lparr>perm_id = 0xb0, userId = 9,
        targetId = Some 0xf1, targetType = Some FolderT, accessLevel = [''read''], isGlobal = False\<rparr>) \<and>
     findFolderById (ObjectId ''0000000000000000000000f1'') (folders exampleStore) \<noteq> None \<and>
     inSubtree exampleStore (ObjectId ''0000000000000000000000f1'') 0xe1 FileT \<and>
     (0xe1, FileT) \<noteq> (ObjectId ''0000000000000000000000f1'', FolderT)"
    using example_granted(1) example_root example_inSubtree(2) by (simp add: toString_b0)
  have 2: "\<exists>p \<in> set (permissions (snd (revokePermission ''0000000000000000000000b0'' exampleGranted))).
      userId p = ObjectId ''000000000000000000000009'' \<and> targetId p = Some 0xe1 \<and>
      targetType p = Some FileT \<and> accessLevel p = toLevels (Many [''read'']) \<and> \<not> isGlobal p"
    using t g by blast
  show ?thesis
    using 1 2 by (simp add: example_granted example_ids toLevels_def)
qed

section \<open>Recursive delete\<close>

lemma find_deleteFirst_other:
  "(\<And>x. P x \<Longrightarrow> \<not> Q x) \<Longrightarrow> find P (deleteFirst Q xs) = find P xs"
  by (induction xs) auto

lemma deleteSubtree_nil: "deleteSubtree [] s ev = (s, ev)"
  by (subst deleteSubtree.simps) simp

lemma deleteSubtree_miss:
  "findFolderById c (folders s) = None \<Longrightarrow>
   deleteSubtree (st @ [toString c]) s ev = deleteSubtree st s ev"
  by (subst deleteSubtree.simps) simp

lemma deleteSubtree_hit:
  "findFolderById c (folders s) = Some childFolder \<Longrightarrow>
   deleteSubtree (st @ [toString c]) s ev =
   deleteSubtree (st @ map toString (folderIds childFolder))
     (s\<lparr>files := deleteMany (\<lambda>f. folderId f = Some c) (files s),
        folders := deleteFirst (\<lambda>f. folder_id f = c) (folders s)\<rparr>)
     (ev @ [S3DeletePrefix (folder_s3Key childFolder), FileDeleteMany c, FolderFindByIdAndDelete c])"
  by (subst deleteSubtree.simps) simp

text \<open>Ids that resolve to no folder are popped and skipped.\<close>

lemma deleteSubtree_skip:
  "\<forall>d \<in> set ds. findFolderById d (folders s) = None \<Longrightarrow>
   deleteSubtree (st @ map toString ds) s ev = deleteSubtree st s ev"
proof (induction ds rule: rev_induct)
  case Nil
  then show ?case by simp
next
  case (snoc d ds)
  have "deleteSubtree (st @ map toString (ds @ [d])) s ev
      = deleteSubtree ((st @ map toString ds) @ [toString d]) s ev" by simp
  also have "\<dots> = deleteSubtree (st @ map toString ds) s ev"
    using snoc.prems by (intro deleteSubtree_miss) simp
  also have "\<dots> = deleteSubtree st s ev" using snoc by simp
  finally show ?case .
qed

lemma missing_after_delete:
  "findFolderById d fs = None \<Longrightarrow> findFolderById d (deleteFirst Q fs) = None"
  by (induction fs) (auto simp: findFolderById_def split: if_splits)

text \<open>Once the root is found, deleteFolder ends without an error.\<close>

lemma deleteFolder_no_error:
  "isValidObjectId idArg \<Longrightarrow> findFolderById (ObjectId idArg) (folders s) \<noteq> None \<Longrightarrow>
   \<exists>r. fst (deleteFolder idArg s) = Inr r"
  by (auto simp: deleteFolder_def Let_def split: prod.splits option.splits)

lemma find_exists: "\<exists>x \<in> set xs. P x \<Longrightarrow> \<exists>y. find P xs = Some y \<and> P y"
  by (induction xs) auto

lemma updateFirst_distinct_hit:
  "distinct (map h ys) \<Longrightarrow> (\<And>y. h (g y) = h y) \<Longrightarrow>
   x \<in> set (updateFirst (\<lambda>y. h y = p) g ys) \<Longrightarrow> h x = p \<Longrightarrow> \<exists>y \<in> set ys. x = g y"
proof (induction ys)
  case Nil
  then show ?case by simp
next
  case (Cons y ys)
  show ?case
  proof (cases "h y = p")
    case True
    then have "\<forall>z \<in> set ys. h z \<noteq> p" using Cons.prems(1) by (metis distinct.simps(2) imageI list.simps(9) list.set_map)
    then show ?thesis using Cons.prems True by auto
  next
    case False
    then show ?thesis using Cons by auto
  qed
qed

lemma map_id_deleteFirst:
  "distinct (map folder_id fs) \<Longrightarrow>
   map folder_id (deleteFirst (\<lambda>f. folder_id f = c) fs) = filter (\<lambda>i. i \<noteq> c) (map folder_id fs)"
  by (simp add: deleteFirst_distinct filter_map comp_def)

text \<open>The walk over root\<rightarrow>A\<rightarrow>B, with any number of child ids that resolve to nothing.\<close>

lemma deleteSubtree_chain:
  assumes a: "findFolderById A (folders s) = Some a"
    and b: "findFolderById B (folders s) = Some b"
    and ne: "A \<noteq> B"
    and kids: "folderIds a = da @ [B] @ da'" "folderIds b = db"
    and gone: "\<forall>d \<in> set (dr @ dr' @ da @ da' @ db). findFolderById d (folders s) = None"
  shows "deleteSubtree (map toString (dr @ [A] @ dr')) s ev =
     (s\<lparr>files := deleteMany (\<lambda>f. folderId f = Some B)
                  (deleteMany (\<lambda>f. folderId f = Some A) (files s)),
        folders := deleteFirst (\<lambda>f. folder_id f = B)
                    (deleteFirst (\<lambda>f. folder_id f = A) (folders s))\<rparr>,
      ev @ [S3DeletePrefix (folder_s3Key a), FileDeleteMany A, FolderFindByIdAndDelete A,
            S3DeletePrefix (folder_s3Key b), FileDeleteMany B, FolderFindByIdAndDelete B])"
proof -
  let ?sA = "s\<lparr>files := deleteMany (\<lambda>f. folderId f = Some A) (files s),
                folders := deleteFirst (\<lambda>f. folder_id f = A) (folders s)\<rparr>"
  let ?evA = "ev @ [S3DeletePrefix (folder_s3Key a), FileDeleteMany A, FolderFindByIdAndDelete A]"
  let ?sB = "?sA\<lparr>files := deleteMany (\<lambda>f. folderId f = Some B) (files ?sA),
                  folders := deleteFirst (\<lambda>f. folder_id f = B) (folders ?sA)\<rparr>"
  let ?evB = "?evA @ [S3DeletePrefix (folder_s3Key b), FileDeleteMany B, FolderFindByIdAndDelete B]"
  have goneA: "\<forall>d \<in> set (dr @ dr' @ da @ da' @ db). findFolderById d (folders ?sA) = None"
    using gone by (auto intro: missing_after_delete)
  have goneB: "\<forall>d \<in> set (dr @ dr' @ da @ da' @ db). findFolderById d (folders ?sB) = None"
    using gone by (auto intro: missing_after_delete)
  have bA: "findFolderById B (folders ?sA) = Some b"
    using b ne by (simp add: findFolderById_def find_deleteFirst_other)
  have "deleteSubtree (map toString (dr @ [A] @ dr')) s ev
      = deleteSubtree ((map toString dr @ [toString A]) @ map toString dr') s ev" by simp
  also have "\<dots> = deleteSubtree (map toString dr @ [toString A]) s ev"
    using gone by (intro deleteSubtree_skip) auto
  also have "\<dots> = deleteSubtree (map toString dr @ map toString (folderIds a)) ?sA ?evA"
    using a by (rule deleteSubtree_hit)
  also have "\<dots> = deleteSubtree (((map toString dr @ map toString da) @ [toString B]) @ map toString da')
      ?sA ?evA"
    by (simp add: kids)
  also have "\<dots> = deleteSubtree ((map toString dr @ map toString da) @ [toString B]) ?sA ?evA"
    using goneA by (intro deleteSubtree_skip) auto
  also have "\<dots> = deleteSubtree ((map toString dr @ map toString da) @ map toString (folderIds b))
      ?sB ?evB"
    using bA by (rule deleteSubtree_hit)
  also have "\<dots> = deleteSubtree ([] @ map toString (dr @ da @ db)) ?sB ?evB"
    by (simp add: kids)
  also have "\<dots> = deleteSubtree [] ?sB ?evB"
    using goneB by (intro deleteSubtree_skip) auto
  also have "\<dots> = (?sB, ?evB)" by (rule deleteSubtree_nil)
  finally show ?thesis by simp
qed


text \<open>
  C5 (recursive delete). On a tree root\<rightarrow>A\<rightarrow>B (child-id lists that may also hold ids
  resolving to no folder, which are skipped), deleteFolder(root) ends without error and
  returns the root document; the folders left are exactly those other than root, A and
  B, the files left are exactly those whose folderId is none of the three; for each of
  root, A and B the blob prefix-delete is issued before the folder's files and the
  folder record are deleted; and when root has a parent, the parent no longer lists it.
\<close>

theorem recursive_delete:
  assumes v: "isValidObjectId idArg"
    and dist: "distinct (map folder_id (folders s))"
    and r: "findFolderById (ObjectId idArg) (folders s) = Some r"
    and a: "findFolderById A (folders s) = Some a"
    and b: "findFolderById B (folders s) = Some b"
    and ne: "ObjectId idArg \<noteq> A" "ObjectId idArg \<noteq> B" "A \<noteq> B"
    and kids: "folderIds r = dr @ [A] @ dr'" "folderIds a = da @ [B] @ da'" "folderIds b = db"
    and gone: "\<forall>d \<in> set (dr @ dr' @ da @ da' @ db). findFolderById d (folders s) = None"
  shows "(\<exists>doc. fst (deleteFolder idArg s) = Inr (Some doc) \<and> folder_id doc = ObjectId idArg) \<and>
     map folder_id (folders (fst (snd (deleteFolder idArg s))))
       = filter (\<lambda>i. i \<notin> {ObjectId idArg, A, B}) (map folder_id (folders s)) \<and>
     files (fst (snd (deleteFolder idArg s)))
       = filter (\<lambda>g. folderId g \<notin> {Some (ObjectId idArg), Some A, Some B}) (files s) \<and>
     snd (snd (deleteFolder idArg s))
       = [S3DeletePrefix (folder_s3Key r), FileDeleteMany (ObjectId idArg),
          S3DeletePrefix (folder_s3Key a), FileDeleteMany A, FolderFindByIdAndDelete A,
          S3DeletePrefix (folder_s3Key b), FileDeleteMany B, FolderFindByIdAndDelete B] @
         (case parentFolderId r of None \<Rightarrow> [] | Some p \<Rightarrow> [FolderPull p (ObjectId idArg)]) @
         [FolderFindByIdAndDelete (ObjectId idArg)] \<and>
     (\<forall>p. parentFolderId r = Some p \<longrightarrow>
        (\<forall>f \<in> set (folders (fst (snd (deleteFolder idArg s)))).
           folder_id f = p \<longrightarrow> ObjectId idArg \<notin> set (folderIds f)))"
proof -
  let ?root = "ObjectId idArg"
  let ?s1 = "s\<lparr>files := deleteMany (\<lambda>f. folderId f = Some ?root) (files s)\<rparr>"
  let ?ev0 = "[S3DeletePrefix (folder_s3Key r), FileDeleteMany ?root]"
  let ?Y = "deleteFirst (\<lambda>f. folder_id f = B) (deleteFirst (\<lambda>f. folder_id f = A) (folders s))"
  let ?F = "deleteMany (\<lambda>f. folderId f = Some B)
              (deleteMany (\<lambda>f. folderId f = Some A) (files ?s1))"
  let ?ev2 = "?ev0 @ [S3DeletePrefix (folder_s3Key a), FileDeleteMany A, FolderFindByIdAndDelete A,
            S3DeletePrefix (folder_s3Key b), FileDeleteMany B, FolderFindByIdAndDelete B]"
  let ?X = "case parentFolderId r of
              None \<Rightarrow> ?Y
            | Some p \<Rightarrow> updateFirst (\<lambda>f. folder_id f = p)
                         (\<lambda>f. f\<lparr>folderIds := pull ?root (folderIds f)\<rparr>) ?Y"
  have walk: "deleteSubtree (map toString (folderIds r)) ?s1 ?ev0 =
      (?s1\<lparr>files := ?F, folders := ?Y\<rparr>, ?ev2)"
    unfolding kids(1)
    using deleteSubtree_chain[of A ?s1 a B b da da' db dr dr' ?ev0] a b ne(3) kids(2,3) gone
    by simp
  have d: "deleteFolder idArg s =
      (Inr (findFolderById ?root ?X),
       s\<lparr>files := ?F, folders := deleteFirst (\<lambda>f. folder_id f = ?root) ?X\<rparr>,
       ?ev2 @ (case parentFolderId r of None \<Rightarrow> [] | Some p \<Rightarrow> [FolderPull p ?root]) @
         [FolderFindByIdAndDelete ?root])"
    using v r walk by (simp add: deleteFolder_def Let_def split: option.splits)
  have dA: "distinct (map folder_id (deleteFirst (\<lambda>f. folder_id f = A) (folders s)))"
    using dist by (simp add: map_id_deleteFirst)
  have idY: "map folder_id ?Y = filter (\<lambda>i. i \<noteq> B) (filter (\<lambda>i. i \<noteq> A) (map folder_id (folders s)))"
    using dist dA by (simp add: map_id_deleteFirst)
  have idX: "map folder_id ?X = map folder_id ?Y"
    by (simp add: map_updateFirst_frame split: option.splits)
  have dX: "distinct (map folder_id ?X)"
    unfolding idX idY using dist by simp
  have rin: "r \<in> set (folders s)" "folder_id r = ?root"
    using find_Some_set[of "\<lambda>f. folder_id f = ?root" "folders s" r] r
    by (simp_all add: findFolderById_def)
  have "?root \<in> folder_id ` set (folders s)"
    using rin by (metis imageI)
  then have "?root \<in> set (map folder_id ?X)"
    unfolding idX idY using ne by simp
  then have "\<exists>x \<in> set ?X. folder_id x = ?root" by auto
  then have 1: "\<exists>doc. findFolderById ?root ?X = Some doc \<and> folder_id doc = ?root"
    unfolding findFolderById_def by (rule find_exists)
  have 2: "map folder_id (deleteFirst (\<lambda>f. folder_id f = ?root) ?X)
      = filter (\<lambda>i. i \<notin> {?root, A, B}) (map folder_id (folders s))"
    using dX by (simp add: map_id_deleteFirst idX idY conj_commute conj_left_commute)
  have 3: "?F = filter (\<lambda>g. folderId g \<notin> {Some ?root, Some A, Some B}) (files s)"
    by (simp add: deleteMany_def conj_commute conj_left_commute)
  have 5: "?root \<notin> set (folderIds f)"
    if p: "parentFolderId r = Some p"
      and f: "f \<in> set (deleteFirst (\<lambda>f. folder_id f = ?root) ?X)" "folder_id f = p" for p f
  proof -
    have dY: "distinct (map folder_id ?Y)" unfolding idY using dist by simp
    have "f \<in> set ?X" using f(1) dX by (simp add: deleteFirst_distinct)
    then have "f \<in> set (updateFirst (\<lambda>f. folder_id f = p)
                         (\<lambda>f. f\<lparr>folderIds := pull ?root (folderIds f)\<rparr>) ?Y)"
      using p by simp
    from updateFirst_distinct_hit[OF dY _ this f(2)]
    obtain y where "f = y\<lparr>folderIds := pull ?root (folderIds y)\<rparr>" by auto
    then show ?thesis by (simp add: pull_def)
  qed
  show ?thesis
    unfolding d using 1 2 3 5[unfolded d] by (simp add: d)
qed

theorem recursive_delete_witness:
  "map folder_id (folders (fst (snd (deleteFolder ''0000000000000000000000f4'' exampleTree))))
     = [0xf0, 0xf3] \<and>
   map file_id (files (fst (snd (deleteFolder ''0000000000000000000000f4'' exampleTree))))
     = [0xe3] \<and>
   snd (snd (deleteFolder ''0000000000000000000000f4'' exampleTree))
     = [S3DeletePrefix ''1/folders/f4/'', FileDeleteMany 0xf4,
        S3DeletePrefix ''1/folders/f5/'', FileDeleteMany 0xf5, FolderFindByIdAndDelete 0xf5,
        S3DeletePrefix ''1/folders/f6/'', FileDeleteMany 0xf6, FolderFindByIdAndDelete 0xf6,
        FolderPull 0xf0 0xf4, FolderFindByIdAndDelete 0xf4]"
proof -
  have v: "isValidObjectId ''0000000000000000000000f4''"
    by (simp add: isValidObjectId_def hexval_def)
  have i: "ObjectId ''0000000000000000000000f4'' = 0xf4"
    by (simp add: ObjectId_def hexval_def)
  have d: "distinct (map folder_id (folders exampleTree))"
    by (simp add: exampleTree_def)
  have r: "findFolderById (ObjectId ''0000000000000000000000f4'') (folders exampleTree)
      = Some (folders exampleTree ! 1)"
    and a: "findFolderById 0xf5 (folders exampleTree) = Some (folders exampleTree ! 2)"
    and b: "findFolderById 0xf6 (folders exampleTree) = Some (folders exampleTree ! 3)"
    by (simp_all add: i findFolderById_def exampleTree_def)
  have ne: "ObjectId ''0000000000000000000000f4'' \<noteq> 0xf5"
    "ObjectId ''0000000000000000000000f4'' \<noteq> 0xf6" "(0xf5 :: oid) \<noteq> 0xf6"
    by (simp_all add: i)
  have kids: "folderIds (folders exampleTree ! 1) = [] @ [0xf5] @ [0xdd]"
    "folderIds (folders exampleTree ! 2) = [] @ [0xf6] @ []"
    "folderIds (folders exampleTree ! 3) = []"
    by (simp_all add: exampleTree_def)
  have gone: "\<forall>d \<in> set ([] @ [0xdd] @ [] @ [] @ []). findFolderById d (folders exampleTree) = None"
    by (simp add: findFolderById_def exampleTree_def)
  note t = recursive_delete[OF v d r a b ne kids gone]
  have 1: "map folder_id (folders (fst (snd (deleteFolder ''0000000000000000000000f4'' exampleTree))))
      = [0xf0, 0xf3]"
    using t by (simp add: i exampleTree_def)
  have "files (fst (snd (deleteFolder ''0000000000000000000000f4'' exampleTree)))
      = filter (\<lambda>g. folderId g \<notin> {Some (ObjectId ''0000000000000000000000f4''), Some 0xf5, Some 0xf6})
          (files exampleTree)"
    using t by blast
  then have 2: "map file_id (files (fst (snd (deleteFolder ''0000000000000000000000f4'' exampleTree))))
      = [0xe3]"
    by (simp add: i exampleTree_def)
  have 3: "snd (snd (deleteFolder ''0000000000000000000000f4'' exampleTree))
     = [S3DeletePrefix ''1/folders/f4/'', FileDeleteMany 0xf4,
        S3DeletePrefix ''1/folders/f5/'', FileDeleteMany 0xf5, FolderFindByIdAndDelete 0xf5,
        S3DeletePrefix ''1/folders/f6/'', FileDeleteMany 0xf6, FolderFindByIdAndDelete 0xf6,
        FolderPull 0xf0 0xf4, FolderFindByIdAndDelete 0xf4]"
    using t by (simp add: i exampleTree_def)
  show ?thesis using 1 2 3 by simp
qed

end
